theory Spec2Isabelle
  imports Complex_Main "HOL-Library.Word"
begin

chapter \<open>The program\<close>

section \<open>JavaScript numbers\<close>

text \<open>
  A JavaScript number is an IEEE 754 double, a \<open>Float32Array\<close> holds IEEE 754 single
  precision numbers. A finite number of either format is modelled by the \<^typ>\<open>real\<close> it
  denotes. \<open>round_float p emin\<close> rounds a real to the nearest number with \<open>p\<close>
  significant bits and least normal exponent \<open>emin\<close>, ties to the even significand, with
  gradual underflow and, at first, no bound on the exponent.
\<close>

definition round_even :: "real \<Rightarrow> int" where
  "round_even w =
     (let f = \<lfloor>w\<rfloor> in
      if w - real_of_int f < 1 / 2 then f
      else if 1 / 2 < w - real_of_int f then f + 1
      else if even f then f else f + 1)"

definition round_float :: "nat \<Rightarrow> int \<Rightarrow> real \<Rightarrow> real" where
  "round_float p emin a =
     (if a = 0 then 0
      else let e = max \<lfloor>log 2 \<bar>a\<bar>\<rfloor> emin;
               q = 2 powr real_of_int (e - int p + 1)
           in real_of_int (round_even (a / q)) * q)"

definition double :: "real \<Rightarrow> real" where
  "double a = round_float 53 (- 1022) a"

definition fround :: "real \<Rightarrow> real" where
  "fround a = round_float 24 (- 126) a"

text \<open>
  A number that is not finite: \<open>NaN\<close> and \<open>\<plusminus>Infinity\<close> are the one value
  \<open>NotFinite\<close>, which every arithmetic operation applied to it afterwards in this program
  (\<open>+\<close>, \<open>-\<close>, \<open>*\<close> with a number that is not zero, \<open>/\<close>, \<open>Math.pow(_, 2)\<close>,
  \<open>Math.cosh\<close>, a store to a \<open>Float32Array\<close>) keeps outside the finite numbers.
  A result whose rounding reaches \<open>2\<^sup>1\<^sup>0\<^sup>2\<^sup>4\<close> (for a single: \<open>2\<^sup>1\<^sup>2\<^sup>8\<close>) overflows to
  \<open>\<plusminus>Infinity\<close>.
\<close>

datatype jsnum = Num real | NotFinite

definition js_double :: "real \<Rightarrow> jsnum" where
  "js_double a = (if \<bar>double a\<bar> < 2 ^ 1024 then Num (double a) else NotFinite)"

definition js_fround :: "real \<Rightarrow> jsnum" where
  "js_fround a = (if \<bar>fround a\<bar> < 2 ^ 128 then Num (fround a) else NotFinite)"

text \<open>
  The arithmetic of the spectrum analyser and of the morph loop, whose claims are about
  exact values and limits: every operation rounds its result to a double.
\<close>

fun double_add :: "jsnum \<Rightarrow> jsnum \<Rightarrow> jsnum" where
  "double_add (Num a) (Num b) = js_double (a + b)"
| "double_add _ _ = NotFinite"

fun double_sub :: "jsnum \<Rightarrow> jsnum \<Rightarrow> jsnum" where
  "double_sub (Num a) (Num b) = js_double (a - b)"
| "double_sub _ _ = NotFinite"

fun double_mul :: "jsnum \<Rightarrow> jsnum \<Rightarrow> jsnum" where
  "double_mul (Num a) (Num b) = js_double (a * b)"
| "double_mul _ _ = NotFinite"

fun double_div :: "jsnum \<Rightarrow> jsnum \<Rightarrow> jsnum" where
  "double_div (Num a) (Num b) = (if b = 0 then NotFinite else js_double (a / b))"
| "double_div _ _ = NotFinite"

text \<open>
  The arithmetic of the pop signal, of the gesture mapper and of the shape generator
  (which calls \<open>Math.sin\<close>, \<open>Math.cos\<close>, \<open>Math.acos\<close>, \<open>Math.exp\<close>, \<open>Math.cosh\<close> and
  \<open>Math.pow\<close>, whose results the language leaves to the implementation) is idealised:
  the operations are those of the reals. What is modelled there is the way a division by
  zero leaves the finite numbers, and the rounding of each number the generator stores in
  its \<open>Float32Array\<close>.
\<close>

definition js_div :: "real \<Rightarrow> real \<Rightarrow> jsnum" where
  "js_div a b = (if b = 0 then NotFinite else Num (a / b))"

fun js_map :: "(real \<Rightarrow> real) \<Rightarrow> jsnum \<Rightarrow> jsnum" where
  "js_map f (Num a) = Num (f a)"
| "js_map f NotFinite = NotFinite"


text \<open>
  For stating the properties: the numbers of a format, \<open>k \<sqdot> 2\<^sup>j\<close> with a significand
  \<open>k\<close> of at most \<open>p\<close> bits and an exponent \<open>j\<close> not below that of the subnormal
  numbers. They are the numbers that the rounding leaves as they are. A single precision
  number is one that \<open>fround\<close> leaves as it is and that is below the overflow threshold.
\<close>

definition is_float :: "nat \<Rightarrow> int \<Rightarrow> real \<Rightarrow> bool" where
  "is_float p emin r =
     (\<exists>k j. r = real_of_int k * 2 powr real_of_int j \<and> \<bar>k\<bar> < 2 ^ p \<and> emin - int p + 1 \<le> j)"


section \<open>services/audioService.ts: the spectrum analyser\<close>

text \<open>
  \<open>AudioData\<close> is the object \<open>{bass, mid, treble}\<close>; the type parameter is the kind of
  number it holds (\<^typ>\<open>jsnum\<close> as \<open>getFrequencyData\<close> returns it, \<^typ>\<open>real\<close>
  where the consumer computes with finite values).
\<close>

record 'n AudioData =
  bass :: 'n
  mid :: 'n
  treble :: 'n

text \<open>
  The Web Audio \<open>AnalyserNode\<close>, reduced to what \<open>getFrequencyData\<close> reads:
  its bin count and the byte spectrum it currently reports.
  \<open>getByteFrequencyData(array)\<close> copies that spectrum into the array, as many bytes as
  both hold, and leaves the rest of the array as it was.
\<close>

record AnalyserNode =
  frequencyBinCount :: nat
  byteFrequencyData :: "8 word list"

definition getByteFrequencyData :: "AnalyserNode \<Rightarrow> 8 word list \<Rightarrow> 8 word list" where
  "getByteFrequencyData an arr =
     take (length arr) (byteFrequencyData an) @ drop (length (byteFrequencyData an)) arr"

text \<open>The two nullable fields of \<open>AudioService\<close> that \<open>getFrequencyData\<close> tests.\<close>

record AudioService =
  analyser :: "AnalyserNode option"
  dataArray :: "8 word list option"

text \<open>\<open>this.dataArray[i]\<close>: a read past the end of a typed array is \<open>undefined\<close>,
  which the division by \<open>255.0\<close> turns into \<open>NaN\<close>.\<close>

definition read_u8 :: "8 word list \<Rightarrow> nat \<Rightarrow> jsnum" where
  "read_u8 arr i = (if i < length arr then Num (real (unat (arr ! i))) else NotFinite)"

text \<open>
  The body of the \<open>for\<close> loop over the bins: \<open>val = this.dataArray[i] / 255.0\<close> and
  \<open>+=\<close>, both in doubles.
\<close>

definition band_step ::
  "8 word list \<Rightarrow> nat \<Rightarrow> nat \<Rightarrow> nat \<Rightarrow> jsnum \<times> jsnum \<times> jsnum \<Rightarrow> jsnum \<times> jsnum \<times> jsnum" where
  "band_step arr bassRange midRange i acc =
     (case acc of (b, m, t) \<Rightarrow>
        let val = double_div (read_u8 arr i) (Num 255) in
        if i < bassRange then (double_add b val, m, t)
        else if i < midRange then (b, double_add m val, t)
        else (b, m, double_add t val))"

text \<open>
  \<open>getFrequencyData\<close>. The ranges are \<open>Math.floor(bufferLength * 0.1)\<close> and
  \<open>Math.floor(bufferLength * 0.5)\<close>, with the literal and the product rounded to a
  double; the differences of the ranges are differences of small integers, which are
  exact.
\<close>

definition getFrequencyData :: "AudioService \<Rightarrow> jsnum AudioData \<times> AudioService" where
  "getFrequencyData s =
     (case (analyser s, dataArray s) of
        (Some an, Some arr0) \<Rightarrow>
          let arr = getByteFrequencyData an arr0;
              bufferLength = frequencyBinCount an;
              bassRange = nat \<lfloor>double (real bufferLength * double 0.1)\<rfloor>;
              midRange = nat \<lfloor>double (real bufferLength * double 0.5)\<rfloor>;
              (b, m, t) = fold (band_step arr bassRange midRange) [0..<bufferLength]
                            (Num 0, Num 0, Num 0)
          in (\<lparr>bass = double_div b (Num (real bassRange)),
               mid = double_div m (Num (real midRange - real bassRange)),
               treble = double_div t (Num (real bufferLength - real midRange))\<rparr>,
              s\<lparr>dataArray := Some arr\<rparr>)
      | _ \<Rightarrow> (\<lparr>bass = Num 0, mid = Num 0, treble = Num 0\<rparr>, s))"

text \<open>The service after a successful \<open>init\<close> whose analyser has \<open>L\<close> bins and reports
  the spectrum \<open>spec\<close>: the data array is a fresh \<open>Uint8Array(L)\<close>. (\<open>init\<close> sets
  \<open>fftSize = 512\<close>, so \<open>L\<close> is 256 in the program; an \<open>AnalyserNode\<close> has between 16
  and 16384 bins.)\<close>

definition ready_service :: "nat \<Rightarrow> 8 word list \<Rightarrow> AudioService" where
  "ready_service L spec =
     \<lparr>analyser = Some \<lparr>frequencyBinCount = L, byteFrequencyData = spec\<rparr>,
      dataArray = Some (replicate L 0)\<rparr>"

text \<open>
  For stating the properties: the bands that are all the double \<open>m / 255.0\<close>; bands that
  are finite and within \<open>tol\<close> of \<open>v\<close>; and the sum of \<open>n\<close> copies of a value as the
  loop accumulates it.
\<close>

definition flat_bands :: "8 word \<Rightarrow> jsnum AudioData" where
  "flat_bands m = (let v = double_div (Num (real (unat m))) (Num 255)
                   in \<lparr>bass = v, mid = v, treble = v\<rparr>)"

definition bands_near :: "jsnum AudioData \<Rightarrow> real \<Rightarrow> real \<Rightarrow> bool" where
  "bands_near a v tol =
     (case (bass a, mid a, treble a) of
        (Num b, Num m, Num t) \<Rightarrow> \<bar>b - v\<bar> \<le> tol \<and> \<bar>m - v\<bar> \<le> tol \<and> \<bar>t - v\<bar> \<le> tol
      | _ \<Rightarrow> False)"

definition band_sum :: "jsnum \<Rightarrow> nat \<Rightarrow> jsnum" where
  "band_sum val n = ((\<lambda>s. double_add s val) ^^ n) (Num 0)"


section \<open>Typed arrays and vectors\<close>

text \<open>
  A \<open>Float32Array\<close> holds single precision numbers, that may be \<open>NaN\<close> or infinite. A
  read past the end is \<open>undefined\<close>, which arithmetic turns into \<open>NaN\<close>; a write past
  the end is ignored, as \<open>xs[i := v]\<close> is. A store rounds the number to single precision.
\<close>

type_synonym Float32Array = "jsnum list"

definition read_f32 :: "Float32Array \<Rightarrow> nat \<Rightarrow> jsnum" where
  "read_f32 arr i = (if i < length arr then arr ! i else NotFinite)"

fun store_f32 :: "jsnum \<Rightarrow> jsnum" where
  "store_f32 (Num a) = js_fround a"
| "store_f32 NotFinite = NotFinite"

text \<open>
  An object with the number fields \<open>x\<close>, \<open>y\<close>, \<open>z\<close>: a \<open>THREE.Vector3\<close> and a
  MediaPipe hand landmark alike.
\<close>

record 'n Vector3 =
  x :: 'n
  y :: 'n
  z :: 'n

text \<open>
  The methods of \<open>THREE.Vector3\<close> that the generator calls, on finite components.
  three.js is a dependency of the program and not part of it; the definitions follow its
  documented behaviour: \<open>setFromSphericalCoords(radius, phi, theta)\<close> measures \<open>phi\<close>
  from the Y axis and \<open>theta\<close> around it, \<open>normalize\<close> divides by \<open>length() || 1\<close>, and
  \<open>applyAxisAngle(axis, angle)\<close> rotates about the unit vector \<open>axis\<close>.
\<close>

definition set_vec :: "real \<Rightarrow> real \<Rightarrow> real \<Rightarrow> real Vector3" where
  "set_vec a b c = \<lparr>x = a, y = b, z = c\<rparr>"

definition setFromSphericalCoords :: "real \<Rightarrow> real \<Rightarrow> real \<Rightarrow> real Vector3" where
  "setFromSphericalCoords radius phi theta =
     (let sinPhiRadius = sin phi * radius
      in \<lparr>x = sinPhiRadius * sin theta, y = cos phi * radius, z = sinPhiRadius * cos theta\<rparr>)"

definition multiplyScalar :: "real \<Rightarrow> real Vector3 \<Rightarrow> real Vector3" where
  "multiplyScalar s v = \<lparr>x = x v * s, y = y v * s, z = z v * s\<rparr>"

definition sub_vec :: "real Vector3 \<Rightarrow> real Vector3 \<Rightarrow> real Vector3" where
  "sub_vec v w = \<lparr>x = x v - x w, y = y v - y w, z = z v - z w\<rparr>"

definition add_vec :: "real Vector3 \<Rightarrow> real Vector3 \<Rightarrow> real Vector3" where
  "add_vec v w = \<lparr>x = x v + x w, y = y v + y w, z = z v + z w\<rparr>"

definition lengthSq :: "real Vector3 \<Rightarrow> real" where
  "lengthSq v = x v * x v + y v * y v + z v * z v"

definition length_vec :: "real Vector3 \<Rightarrow> real" where
  "length_vec v = sqrt (lengthSq v)"

definition normalize_vec :: "real Vector3 \<Rightarrow> real Vector3" where
  "normalize_vec v =
     (let l = length_vec v in multiplyScalar (1 / (if l = 0 then 1 else l)) v)"

definition dot :: "real Vector3 \<Rightarrow> real Vector3 \<Rightarrow> real" where
  "dot v w = x v * x w + y v * y w + z v * z w"

definition cross :: "real Vector3 \<Rightarrow> real Vector3 \<Rightarrow> real Vector3" where
  "cross v w = \<lparr>x = y v * z w - z v * y w, y = z v * x w - x v * z w,
                 z = x v * y w - y v * x w\<rparr>"

definition applyAxisAngle :: "real Vector3 \<Rightarrow> real \<Rightarrow> real Vector3 \<Rightarrow> real Vector3" where
  "applyAxisAngle axis angle v =
     add_vec (add_vec (multiplyScalar (cos angle) v) (multiplyScalar (sin angle) (cross axis v)))
       (multiplyScalar (dot axis v * (1 - cos angle)) axis)"

definition finite_vec :: "real Vector3 \<Rightarrow> jsnum Vector3" where
  "finite_vec v = \<lparr>x = Num (x v), y = Num (y v), z = Num (z v)\<rparr>"

section \<open>components/ParticleSystem.tsx: the frame callback\<close>

text \<open>
  The mutable state of the component that \<open>useFrame\<close> updates: the position buffer of
  the geometry and \<open>smoothedBassRef.current\<close>.
\<close>

record ParticleSystem =
  positions :: Float32Array
  smoothedBass :: real

text \<open>\<open>morphSpeed = 0.03 + (audioData.treble * 0.05)\<close>, in doubles.\<close>

definition morphSpeed :: "real AudioData \<Rightarrow> jsnum" where
  "morphSpeed audioData =
     double_add (js_double 0.03) (double_mul (Num (treble audioData)) (js_double 0.05))"

text \<open>
  \<open>positions[j] += (targetPositions[j] - positions[j]) * morphSpeed\<close>: the value
  computed, in doubles, and the store, which rounds it to single precision.
\<close>

definition lerp_num :: "Float32Array \<Rightarrow> jsnum \<Rightarrow> Float32Array \<Rightarrow> nat \<Rightarrow> jsnum" where
  "lerp_num targetPositions speed ps j =
     double_add (read_f32 ps j)
       (double_mul (double_sub (read_f32 targetPositions j) (read_f32 ps j)) speed)"

definition morph_axis :: "Float32Array \<Rightarrow> jsnum \<Rightarrow> nat \<Rightarrow> Float32Array \<Rightarrow> Float32Array" where
  "morph_axis targetPositions speed j ps =
     ps[j := store_f32 (lerp_num targetPositions speed ps j)]"

text \<open>The body of the morph loop for particle \<open>i\<close>, and the loop.\<close>

definition morph_particle :: "Float32Array \<Rightarrow> jsnum \<Rightarrow> nat \<Rightarrow> Float32Array \<Rightarrow> Float32Array" where
  "morph_particle targetPositions speed i ps =
     (let ix = i * 3; iy = i * 3 + 1; iz = i * 3 + 2
      in morph_axis targetPositions speed iz
           (morph_axis targetPositions speed iy (morph_axis targetPositions speed ix ps)))"

definition morph :: "nat \<Rightarrow> Float32Array \<Rightarrow> jsnum \<Rightarrow> Float32Array \<Rightarrow> Float32Array" where
  "morph count targetPositions speed ps =
     fold (morph_particle targetPositions speed) [0..<count] ps"


text \<open>
  The audio signal processing of the frame: the noise gate, \<open>Math.pow(rawBass, 3.0)\<close>
  (the cube), and the smoothing of \<open>smoothedBassRef.current\<close>, over the reals.
\<close>

definition popBass :: "real \<Rightarrow> real" where
  "popBass b = (let rawBass = (if b < 0.2 then 0 else b) in rawBass ^ 3)"

definition smooth :: "real \<Rightarrow> real \<Rightarrow> real" where
  "smooth pop smoothed = smoothed + (pop - smoothed) * 0.3"

text \<open>
  \<open>useFrame\<close>: \<open>mounted\<close> says that \<open>pointsRef.current\<close> and \<open>materialRef.current\<close>
  are both set; otherwise the callback returns at once. The uniforms written at the end
  of the callback are copies of the inputs and of \<open>smoothedBass\<close>.
\<close>

definition useFrame ::
  "nat \<Rightarrow> Float32Array \<Rightarrow> real AudioData \<Rightarrow> bool \<Rightarrow> ParticleSystem \<Rightarrow> ParticleSystem" where
  "useFrame count targetPositions audioData mounted st =
     (if \<not> mounted then st
      else st\<lparr>positions := morph count targetPositions (morphSpeed audioData) (positions st),
              smoothedBass := smooth (popBass (bass audioData)) (smoothedBass st)\<rparr>)"

section \<open>components/VisionController.tsx: the gesture mapper\<close>

datatype VisionStatus = Init | Detected | Waiting | Error

datatype js_error = TypeError

text \<open>\<open>a || b\<close> on finite numbers: \<open>b\<close> when \<open>a\<close> is zero, else \<open>a\<close>.\<close>

definition js_or :: "real \<Rightarrow> real \<Rightarrow> real" where
  "js_or a b = (if a = 0 then b else a)"

text \<open>
  \<open>onResults\<close>: \<open>multiHandLandmarks\<close> is absent or a list of hands, a hand a list of
  landmarks. The result is the status set and the factor passed to \<open>onHandUpdate\<close>.
  Reading \<open>.x\<close> of a landmark the hand does not have throws.
\<close>

definition onResults :: "real Vector3 list list option \<Rightarrow> js_error + VisionStatus \<times> real" where
  "onResults multiHandLandmarks =
     (case multiHandLandmarks of
        Some (landmarks # _) \<Rightarrow>
          if length landmarks \<le> 8 then Inl TypeError
          else
            let thumbTip = landmarks ! 4; indexTip = landmarks ! 8;
                wrist = landmarks ! 0; indexBase = landmarks ! 5;
                dx = x thumbTip - x indexTip; dy = y thumbTip - y indexTip;
                dist = sqrt (dx * dx + dy * dy);
                pdx = x wrist - x indexBase; pdy = y wrist - y indexBase;
                palmSize = sqrt (pdx * pdx + pdy * pdy);
                rawFactor = dist / js_or palmSize 0.1;
                factor = (rawFactor - 0.2) / 1.0;
                factor = (if factor > 1.0 then 1.0 else factor);
                factor = (if factor < 0.0 then 0.0 else factor)
            in Inr (Detected, factor)
      | _ \<Rightarrow> Inr (Waiting, 1.0))"


text \<open>
  For stating the properties: the distance of two landmarks in the image plane, as
  \<open>onResults\<close> computes it, and a hand given by the four landmarks \<open>onResults\<close>
  reads (indices 0, 4, 5 and 8).
\<close>

definition distance2d :: "real Vector3 \<Rightarrow> real Vector3 \<Rightarrow> real" where
  "distance2d p q = sqrt ((x p - x q) * (x p - x q) + (y p - y q) * (y p - y q))"

definition hand4 ::
  "real Vector3 \<Rightarrow> real Vector3 \<Rightarrow> real Vector3 \<Rightarrow> real Vector3 \<Rightarrow> real Vector3 list" where
  "hand4 wrist thumbTip indexBase indexTip =
     [wrist, wrist, wrist, wrist, thumbTip, indexBase, wrist, wrist, indexTip]"

section \<open>The shape generator \<open>generateShapePositions\<close>\<close>

datatype ShapeType =
  NEBULA | HEART | FLOWER | SATURN | CAKE | FIREWORKS | SPIRAL | LEMNISCATE | KOCH
  | ASTROID | BUTTERFLY | CATENOID | ROSE

text \<open>
  \<open>Math.random()\<close> reads a global generator. The state passed along is the sequence of
  numbers the generator is still to return; every call takes the first. The contract of
  \<open>Math.random\<close> is that each lies in \<open>[0, 1)\<close>.
\<close>

type_synonym rng = "nat \<Rightarrow> real"

definition random :: "rng \<Rightarrow> real \<times> rng" where
  "random g = (g 0, \<lambda>n. g (Suc n))"

definition unit_draws :: "rng \<Rightarrow> bool" where
  "unit_draws g = (\<forall>n. 0 \<le> g n \<and> g n < 1)"

text \<open>
  One definition for each \<open>case\<close> of the \<open>switch\<close>. Each returns the vector the case
  leaves in \<open>tempVec\<close> and the generator state after its draws. Every case assigns all
  three components, so what the previous particle left in \<open>tempVec\<close> is never read.
  \<open>Math.pow\<close> with the exponents 2, 3 and 5 is the power; \<open>Math.pow(_, 0.1)\<close> is
  \<open>powr\<close>, with \<open>Math.pow(0, 0.1) = 0\<close>.
\<close>

definition case_NEBULA :: "real \<Rightarrow> rng \<Rightarrow> jsnum Vector3 \<times> rng" where
  "case_NEBULA radius g0 =
     (let (u1, g1) = random g0; r = u1 * radius;
          (u2, g2) = random g1; theta = u2 * pi * 2;
          (u3, g3) = random g2; phi = arccos (2 * u3 - 1);
          v = setFromSphericalCoords r phi theta;
          armOffset = sin (r * 0.5);
          nx = x v * cos armOffset - z v * sin armOffset;
          nz = x v * sin armOffset + z v * cos armOffset
      in (finite_vec (set_vec nx (y v * 0.3) nz), g3))"

definition case_HEART :: "rng \<Rightarrow> jsnum Vector3 \<times> rng" where
  "case_HEART g0 =
     (let (u1, g1) = random g0; phi = u1 * pi * 2;
          (u2, g2) = random g1; theta = u2 * pi;
          u = phi;
          hx = 16 * sin u ^ 3;
          hy = 13 * cos u - 5 * cos (2 * u) - 2 * cos (3 * u) - cos (4 * u);
          (u3, g3) = random g2; hz = (u3 - 0.5) * 6 * sin u
      in (finite_vec (multiplyScalar 0.4 (set_vec hx hy hz)), g3))"

definition case_FLOWER :: "real \<Rightarrow> real \<Rightarrow> rng \<Rightarrow> jsnum Vector3 \<times> rng" where
  "case_FLOWER t radius g0 =
     (let u = t * pi * 2 * 10;
          r = cos (5 * u) * radius;
          y_val = js_map (\<lambda>q. q ^ 2 * 5 - 2) (js_div \<bar>r\<bar> radius);
          (u1, g1) = random g0
      in (\<lparr>x = Num (r * cos u), y = js_map (\<lambda>q. q + (u1 - 0.5)) y_val, z = Num (r * sin u)\<rparr>,
          g1))"

definition case_SATURN :: "nat \<Rightarrow> nat \<Rightarrow> real \<Rightarrow> rng \<Rightarrow> jsnum Vector3 \<times> rng" where
  "case_SATURN i count radius g0 =
     (if real i < real count * 0.4 then
        let r = radius * 0.6;
            (u1, g1) = random g0; theta = u1 * pi * 2;
            (u2, g2) = random g1; phi = arccos (2 * u2 - 1)
        in (finite_vec (setFromSphericalCoords r phi theta), g2)
      else
        let (u1, g1) = random g0; angle = u1 * pi * 2;
            (u2, g2) = random g1; dist = radius * (1.2 + u2 * 0.8);
            tilt = pi / 6;
            (u3, g3) = random g2;
            v = set_vec (dist * cos angle) ((u3 - 0.5) * 0.5) (dist * sin angle)
        in (finite_vec (applyAxisAngle (set_vec 1 0 0) tilt v), g3))"

definition case_CAKE :: "nat \<Rightarrow> nat \<Rightarrow> real \<Rightarrow> rng \<Rightarrow> jsnum Vector3 \<times> rng" where
  "case_CAKE i count radius g0 =
     (let (rand, g1) = random g0;
          bottomTierR = radius;
          topTierR = radius * 0.65;
          bottomH = radius * 0.5;
          topH = radius * 0.4;
          (v, g') =
            (if real i > real count * 0.98 then
               let candleCount = 6;
                   (u1, g2) = random g1; cIdx = real_of_int \<lfloor>u1 * candleCount\<rfloor>;
                   angle = (cIdx / candleCount) * pi * 2;
                   cr = topTierR * 0.6;
                   (u2, g3) = random g2; cy = bottomH + topH + radius * 0.15 + u2 * 0.2;
                   v = set_vec (cr * cos angle) cy (cr * sin angle);
                   (u3, g4) = random g3; v = v\<lparr>x := x v + (u3 - 0.5) * 0.1\<rparr>;
                   (u4, g5) = random g4; v = v\<lparr>z := z v + (u4 - 0.5) * 0.1\<rparr>
               in (v, g5)
             else if real i > real count * 0.95 then
               let candleCount = 6;
                   (u1, g2) = random g1; cIdx = real_of_int \<lfloor>u1 * candleCount\<rfloor>;
                   angle = (cIdx / candleCount) * pi * 2;
                   cr = topTierR * 0.6;
                   (u2, g3) = random g2; ch = u2 * radius * 0.15
               in (set_vec (cr * cos angle) (bottomH + topH + ch) (cr * sin angle), g3)
             else if real i > real count * 0.90 then
               let (u1, g2) = random g1; angle = u1 * pi * 2;
                   (u2, g3) = random g2; isTop = (u2 > 0.5);
                   rBase = (if isTop then topTierR else bottomTierR);
                   yBase = (if isTop then bottomH + topH else bottomH);
                   rOffset = 0.5 * sin (angle * 20)
               in (set_vec ((rBase + rOffset * 0.2) * cos angle) yBase
                     ((rBase + rOffset * 0.2) * sin angle), g3)
             else if real i > real count * 0.55 then
               let (u1, g2) = random g1; angle = u1 * pi * 2;
                   (u2, g3) = random g2; r = sqrt u2 * topTierR;
                   (u3, g4) = random g3; h = u3 * topH
               in (set_vec (r * cos angle) (bottomH + h) (r * sin angle), g4)
             else
               let (u1, g2) = random g1; angle = u1 * pi * 2;
                   (u2, g3) = random g2; r = sqrt u2 * bottomTierR;
                   (u3, g4) = random g3; h = u3 * bottomH
               in (set_vec (r * cos angle) h (r * sin angle), g4))
      in (finite_vec (v\<lparr>y := y v - radius * 0.5\<rparr>), g'))"

definition case_FIREWORKS :: "real \<Rightarrow> rng \<Rightarrow> jsnum Vector3 \<times> rng" where
  "case_FIREWORKS radius g0 =
     (let (u1, g1) = random g0; theta = u1 * pi * 2;
          (u2, g2) = random g1; phi = arccos (2 * u2 - 1);
          (u3, g3) = random g2; r = u3 powr 0.1 * radius * 1.5
      in (finite_vec (setFromSphericalCoords r phi theta), g3))"

definition case_SPIRAL :: "real \<Rightarrow> real \<Rightarrow> rng \<Rightarrow> jsnum Vector3 \<times> rng" where
  "case_SPIRAL t radius g0 =
     (let loops = 4;
          theta = t * pi * 2 * loops;
          r = (theta / (pi * 2 * loops)) * radius * 1.5;
          (u1, g1) = random g0; scatter = (u1 - 0.5) * (radius * 0.2);
          (u2, g2) = random g1
      in (finite_vec (set_vec ((r + scatter) * cos theta) ((u2 - 0.5) * radius * 0.1)
                        ((r + scatter) * sin theta)), g2))"

definition case_LEMNISCATE :: "real \<Rightarrow> real \<Rightarrow> rng \<Rightarrow> jsnum Vector3 \<times> rng" where
  "case_LEMNISCATE t radius g0 =
     (let tVal = t * pi * 2;
          scale = radius * 1.2;
          sinT = sin tVal;
          cosT = cos tVal;
          divisor = 1 + sinT * sinT;
          bx = (scale * cosT) / divisor;
          by = (scale * cosT * sinT) / divisor;
          (u1, g1) = random g0; thickness = (u1 - 0.5) * 2.0;
          v = set_vec bx by thickness
      in (finite_vec (applyAxisAngle (set_vec 1 0 0) (pi / 2) v), g1))"

text \<open>The helper \<open>getTetrahedronPoint\<close>: its four vertices, its loop, and the helper.\<close>

definition tetrahedron :: "real Vector3 list" where
  "tetrahedron = [set_vec 1 1 1, set_vec (- 1) (- 1) 1, set_vec (- 1) 1 (- 1),
                  set_vec 1 (- 1) (- 1)]"

fun tetrahedron_loop :: "nat \<Rightarrow> real Vector3 \<Rightarrow> rng \<Rightarrow> real Vector3 \<times> rng" where
  "tetrahedron_loop 0 current g0 = (current, g0)"
| "tetrahedron_loop (Suc n) current g0 =
     (let (u1, g1) = random g0; target = tetrahedron ! nat \<lfloor>u1 * 4\<rfloor>
      in tetrahedron_loop n
           (add_vec (multiplyScalar 0.5 (sub_vec current target)) target) g1)"

definition getTetrahedronPoint :: "real \<Rightarrow> nat \<Rightarrow> rng \<Rightarrow> real Vector3 \<times> rng" where
  "getTetrahedronPoint radius depth g0 =
     (let (u1, g1) = random g0; (u2, g2) = random g1; (u3, g3) = random g2;
          pt = multiplyScalar radius (normalize_vec (set_vec (u1 - 0.5) (u2 - 0.5) (u3 - 0.5)));
          (current, g4) = tetrahedron_loop depth pt g3
      in (multiplyScalar (radius * 0.8) current, g4))"

definition case_KOCH :: "real \<Rightarrow> rng \<Rightarrow> jsnum Vector3 \<times> rng" where
  "case_KOCH radius g0 =
     (let (pt, g1) = getTetrahedronPoint radius 6 g0 in (finite_vec pt, g1))"

definition case_ASTROID :: "real \<Rightarrow> rng \<Rightarrow> jsnum Vector3 \<times> rng" where
  "case_ASTROID radius g0 =
     (let (u1, g1) = random g0; u = u1 * pi * 2;
          (u2, g2) = random g1; v = (u2 - 0.5) * pi;
          r = radius * 1.2;
          cosU = cos u; sinU = sin u;
          cosV = cos v; sinV = sin v
      in (finite_vec \<lparr>x = r * cosU ^ 3 * cosV ^ 3, y = r * sinV ^ 3,
                       z = r * sinU ^ 3 * cosV ^ 3\<rparr>, g2))"

definition case_BUTTERFLY :: "real \<Rightarrow> real \<Rightarrow> rng \<Rightarrow> jsnum Vector3 \<times> rng" where
  "case_BUTTERFLY t radius g0 =
     (let loops = 12;
          tVal = t * pi * 2 * loops;
          term = exp (cos tVal) - 2 * cos (4 * tVal) - sin (tVal / 12) ^ 5;
          r = radius * 0.3 * term;
          (u1, g1) = random g0
      in (finite_vec \<lparr>x = r * sin tVal, y = r * cos tVal, z = (u1 - 0.5) * \<bar>r\<bar> * 0.5\<rparr>, g1))"

definition case_CATENOID :: "real \<Rightarrow> real \<Rightarrow> rng \<Rightarrow> jsnum Vector3 \<times> rng" where
  "case_CATENOID t radius g0 =
     (let c = radius * 0.3;
          (u1, g1) = random g0; u = u1 * pi * 2;
          v = (t - 0.5) * radius * 1.5;
          r = js_map (\<lambda>q. c * cosh q) (js_div v c)
      in (\<lparr>x = js_map (\<lambda>r. r * cos u) r, y = Num v, z = js_map (\<lambda>r. r * sin u) r\<rparr>, g1))"

definition case_ROSE :: "real \<Rightarrow> rng \<Rightarrow> jsnum Vector3 \<times> rng" where
  "case_ROSE radius g0 =
     (let k = 6;
          (u1, g1) = random g0; theta = u1 * pi * 2;
          (u2, g2) = random g1; phi = u2 * pi;
          rBase = sin (k * theta) * sin (k * phi);
          r = radius * (0.5 + 0.5 * \<bar>rBase\<bar>)
      in (finite_vec (setFromSphericalCoords r phi theta), g2))"

text \<open>
  The body of the loop for particle \<open>i\<close>: \<open>t = i / count\<close> (the loop runs only for
  \<open>i < count\<close>, so \<open>count\<close> is not zero), the three draws of the fallback position,
  which no case of the enumeration uses, and the \<open>switch\<close>. The \<open>default\<close> branch is not
  reached by a value of \<open>ShapeType\<close>.
\<close>

definition particle :: "ShapeType \<Rightarrow> nat \<Rightarrow> real \<Rightarrow> nat \<Rightarrow> rng \<Rightarrow> jsnum Vector3 \<times> rng" where
  "particle type count radius i g0 =
     (let t = real i / real count;
          (u1, g1) = random g0; fx = (u1 - 0.5) * 2 * radius;
          (u2, g2) = random g1; fy = (u2 - 0.5) * 2 * radius;
          (u3, g3) = random g2; fz = (u3 - 0.5) * 2 * radius
      in case type of
           NEBULA \<Rightarrow> case_NEBULA radius g3
         | HEART \<Rightarrow> case_HEART g3
         | FLOWER \<Rightarrow> case_FLOWER t radius g3
         | SATURN \<Rightarrow> case_SATURN i count radius g3
         | CAKE \<Rightarrow> case_CAKE i count radius g3
         | FIREWORKS \<Rightarrow> case_FIREWORKS radius g3
         | SPIRAL \<Rightarrow> case_SPIRAL t radius g3
         | LEMNISCATE \<Rightarrow> case_LEMNISCATE t radius g3
         | KOCH \<Rightarrow> case_KOCH radius g3
         | ASTROID \<Rightarrow> case_ASTROID radius g3
         | BUTTERFLY \<Rightarrow> case_BUTTERFLY t radius g3
         | CATENOID \<Rightarrow> case_CATENOID t radius g3
         | ROSE \<Rightarrow> case_ROSE radius g3)"

definition store_particle ::
  "ShapeType \<Rightarrow> nat \<Rightarrow> real \<Rightarrow> nat \<Rightarrow> rng \<times> Float32Array \<Rightarrow> rng \<times> Float32Array" where
  "store_particle type count radius i st =
     (case st of (g, ps) \<Rightarrow>
        let (tempVec, g') = particle type count radius i g
        in (g', ps[i * 3 := x tempVec, i * 3 + 1 := y tempVec, i * 3 + 2 := z tempVec]))"

text \<open>The function: the array it returns and the generator state it leaves.\<close>

definition generateShapePositions ::
  "ShapeType \<Rightarrow> nat \<Rightarrow> real \<Rightarrow> rng \<Rightarrow> Float32Array \<times> rng" where
  "generateShapePositions type count radius g =
     (let ps0 = replicate (count * 3) (Num 0);
          (g', ps) = fold (store_particle type count radius) [0..<count] (g, ps0)
      in (ps, g'))"







chapter \<open>Verification\<close>

section \<open>Rounding\<close>

text \<open>Rounding to the nearest integer, ties to even.\<close>

lemma round_even_cases:
  "round_even w = \<lfloor>w\<rfloor> \<or> round_even w = \<lfloor>w\<rfloor> + 1"
  by (simp add: round_even_def Let_def)

lemma round_even_error: "\<bar>real_of_int (round_even w) - w\<bar> \<le> 1 / 2"
  unfolding round_even_def Let_def by (auto simp: abs_if) linarith+

lemma round_even_le: "w \<le> real_of_int n \<Longrightarrow> round_even w \<le> n"
proof -
  assume le: "w \<le> real_of_int n"
  have f: "\<lfloor>w\<rfloor> \<le> n" using le by (simp add: floor_le_iff) 
  show ?thesis
  proof (cases "\<lfloor>w\<rfloor> = n")
    case True
    then have "w = real_of_int n" using le by linarith
    then show ?thesis by (simp add: round_even_def)
  next
    case False
    then have "\<lfloor>w\<rfloor> + 1 \<le> n" using f by simp
    then show ?thesis using round_even_cases [of w] by auto
  qed
qed


lemma round_even_of_int: "round_even (real_of_int n) = n"
  by (simp add: round_even_def)

lemma binade:
  assumes "a \<noteq> 0"
  shows "2 powr real_of_int \<lfloor>log 2 \<bar>a\<bar>\<rfloor> \<le> \<bar>a\<bar>" and "\<bar>a\<bar> < 2 powr real_of_int (\<lfloor>log 2 \<bar>a\<bar>\<rfloor> + 1)"
  using assms floor_log_eq_powr_iff [of "\<bar>a\<bar>" 2 "\<lfloor>log 2 \<bar>a\<bar>\<rfloor>"] by simp_all

lemma round_even_uminus: "round_even (- w) = - round_even w"
proof (cases "w = real_of_int \<lfloor>w\<rfloor>")
  case True
  then obtain n where "w = real_of_int n" by metis
  then show ?thesis by (simp add: round_even_of_int flip: of_int_minus)
next
  case False
  then have fl: "\<lfloor>- w\<rfloor> = - \<lfloor>w\<rfloor> - 1" by linarith
  have fr: "real_of_int \<lfloor>w\<rfloor> < w" using False by linarith
  show ?thesis
    unfolding round_even_def Let_def fl using fr by auto
qed

lemma round_float_uminus: "round_float p emin (- a) = - round_float p emin a"
  by (simp add: round_float_def Let_def round_even_uminus)

lemma is_float_uminus: "is_float p emin r \<Longrightarrow> is_float p emin (- r)"
  unfolding is_float_def
  apply (elim exE conjE)
  subgoal for k j by (rule exI [where x = "- k"], rule exI [where x = j]) simp
  done

lemma powr_int_le: "i \<le> j \<Longrightarrow> 2 powr real_of_int i \<le> 2 powr real_of_int j"
  by simp

lemma powr_int_diff_nat:
  assumes "i \<le> j"
  shows "2 powr real_of_int j / 2 powr real_of_int i = real_of_int (2 ^ nat (j - i))"
proof -
  have "2 powr real_of_int j / 2 powr real_of_int i = 2 powr (real_of_int j - real_of_int i)"
    by (simp add: powr_diff)
  also have "real_of_int j - real_of_int i = real (nat (j - i))" using assms by simp
  also have "2 powr real (nat (j - i)) = 2 ^ nat (j - i)" by (simp add: powr_realpow)
  finally show ?thesis by simp
qed

lemma round_float_le:
  assumes fl: "is_float p emin r" and le: "a \<le> r" and p: "0 < p"
  shows "round_float p emin a \<le> r"
proof (cases "a = 0")
  case True
  then show ?thesis using le by (simp add: round_float_def)
next
  case False
  define e where "e = max \<lfloor>log 2 \<bar>a\<bar>\<rfloor> emin"
  define q where "q = 2 powr real_of_int (e - int p + 1)"
  have q: "0 < q" by (simp add: q_def)
  have rd: "round_float p emin a = real_of_int (round_even (a / q)) * q"
    using False by (simp add: round_float_def Let_def e_def q_def)
  from fl obtain k j where r: "r = real_of_int k * 2 powr real_of_int j"
    and k: "\<bar>k\<bar> < 2 ^ p" and j: "emin - int p + 1 \<le> j"
    unfolding is_float_def by blast
  show ?thesis
  proof (cases "e - int p + 1 \<le> j")
    case True
    have "2 powr real_of_int j / q = real_of_int (2 ^ nat (j - (e - int p + 1)))"
      unfolding q_def by (rule powr_int_diff_nat [OF True])
    moreover have "r / q = real_of_int k * (2 powr real_of_int j / q)"
      by (simp add: r)
    ultimately have rq: "r / q = real_of_int (k * 2 ^ nat (j - (e - int p + 1)))"
      by (simp only: of_int_mult)
    have "a / q \<le> r / q" using le q by (simp add: divide_right_mono)
    then have "round_even (a / q) \<le> k * 2 ^ nat (j - (e - int p + 1))"
      unfolding rq by (rule round_even_le)
    then have "real_of_int (round_even (a / q)) \<le> real_of_int (k * 2 ^ nat (j - (e - int p + 1)))"
      by (simp only: of_int_le_iff)
    then have "real_of_int (round_even (a / q)) \<le> r / q" by (simp only: rq)
    then have "real_of_int (round_even (a / q)) * q \<le> r / q * q"
      using q by (intro mult_right_mono) simp_all
    then show ?thesis using q by (simp add: rd)
  next
    case False
    then have je: "j \<le> e - int p" by simp
    then have "emin < e" using j by simp
    then have e: "e = \<lfloor>log 2 \<bar>a\<bar>\<rfloor>" unfolding e_def by simp
    have lo: "2 powr real_of_int e \<le> \<bar>a\<bar>"
      unfolding e using binade(1) [OF \<open>a \<noteq> 0\<close>] .
    have "\<bar>r\<bar> = real_of_int \<bar>k\<bar> * 2 powr real_of_int j" by (simp add: r abs_mult)
    also have "\<dots> < 2 ^ p * 2 powr real_of_int j"
    proof -
      have "real_of_int \<bar>k\<bar> < real_of_int (2 ^ p)" using k by (simp only: of_int_less_iff)
      then show ?thesis by simp
    qed
    also have "\<dots> = 2 powr (real p + real_of_int j)" by (simp add: powr_add powr_realpow)
    also have "\<dots> \<le> 2 powr real_of_int e" using je by simp
    finally have rsmall: "\<bar>r\<bar> < 2 powr real_of_int e" .
    then have neg: "a \<le> - (2 powr real_of_int e)" using lo le by linarith
    have pe: "2 powr real_of_int e / q = real_of_int (2 ^ nat (e - (e - int p + 1)))"
      unfolding q_def by (rule powr_int_diff_nat) (use p in simp)
    have "a / q \<le> (- (2 powr real_of_int e)) / q"
      using neg q by (intro divide_right_mono) simp_all
    then have "a / q \<le> - (2 powr real_of_int e) / q" by simp
    also have "\<dots> = real_of_int (- (2 ^ nat (e - (e - int p + 1))))"
      using pe by simp
    finally have "round_even (a / q) \<le> - (2 ^ nat (e - (e - int p + 1)))"
      by (rule round_even_le)
    then have "real_of_int (round_even (a / q)) \<le> real_of_int (- (2 ^ nat (e - (e - int p + 1))))"
      by (simp only: of_int_le_iff)
    also have "\<dots> = - (2 powr real_of_int e) / q" using pe by simp
    finally have "real_of_int (round_even (a / q)) * q \<le> - (2 powr real_of_int e) / q * q"
      using q by (intro mult_right_mono) simp_all
    then have "round_float p emin a \<le> - (2 powr real_of_int e)" using q by (simp add: rd)
    then show ?thesis using rsmall by linarith
  qed
qed

lemma round_float_ge:
  assumes "is_float p emin r" and "r \<le> a" and "0 < p"
  shows "r \<le> round_float p emin a"
  using round_float_le [OF is_float_uminus [OF assms(1)], of "- a"] assms(2,3)
  by (simp add: round_float_uminus)

lemma round_float_id: "is_float p emin r \<Longrightarrow> 0 < p \<Longrightarrow> round_float p emin r = r"
  using round_float_le [of p emin r r] round_float_ge [of p emin r r] by simp

lemma round_float_error:
  assumes "2 powr real_of_int emin \<le> \<bar>a\<bar>"
  shows "\<bar>round_float p emin a - a\<bar> \<le> \<bar>a\<bar> / 2 ^ p"
proof -
  have nz: "a \<noteq> 0" using assms by auto
  define e where "e = \<lfloor>log 2 \<bar>a\<bar>\<rfloor>"
  have "2 powr real_of_int emin < 2 powr real_of_int (e + 1)"
    using assms binade(2) [OF nz] unfolding e_def by linarith
  then have "emin \<le> e" by simp
  then have e: "max \<lfloor>log 2 \<bar>a\<bar>\<rfloor> emin = e" by (simp add: e_def)
  define q where "q = 2 powr real_of_int (e - int p + 1)"
  have q: "0 < q" by (simp add: q_def)
  have rd: "round_float p emin a = real_of_int (round_even (a / q)) * q"
    using nz by (simp add: round_float_def Let_def e q_def)
  have "round_float p emin a - a = (real_of_int (round_even (a / q)) - a / q) * q"
    using q by (simp add: rd left_diff_distrib)
  then have "\<bar>round_float p emin a - a\<bar> = \<bar>real_of_int (round_even (a / q)) - a / q\<bar> * q"
    using q by (simp add: abs_mult)
  also have "\<dots> \<le> 1 / 2 * q" using q round_even_error [of "a / q"]
    by (intro mult_right_mono) simp_all
  also have "\<dots> = 2 powr real_of_int e / 2 ^ p"
    by (simp add: q_def powr_diff powr_add powr_realpow)
  also have "\<dots> \<le> \<bar>a\<bar> / 2 ^ p"
    using binade(1) [OF nz] by (simp add: e_def divide_right_mono)
  finally show ?thesis .
qed







lemma round_float_eval:
  assumes lo: "2 ^ (p - 1) \<le> \<bar>a\<bar> * 2 ^ n" and hi: "\<bar>a\<bar> * 2 ^ n < 2 ^ p"
    and em: "emin \<le> int p - 1 - int n" and p: "0 < p"
  shows "round_float p emin a = real_of_int (round_even (a * 2 ^ n)) / 2 ^ n"
proof -
  define e where "e = int p - 1 - int n"
  have "(0::real) < 2 ^ (p - 1)" by simp
  then have "0 < \<bar>a\<bar> * 2 ^ n" using lo by linarith
  then have nz: "a \<noteq> 0" by auto
  have pe: "2 powr real_of_int e = 2 ^ (p - 1) / 2 ^ n"
  proof -
    have "real_of_int e = real (p - 1) - real n" using p by (simp add: e_def)
    then show ?thesis by (simp add: powr_diff powr_realpow)
  qed
  have pe1: "2 powr real_of_int (e + 1) = 2 ^ p / 2 ^ n"
  proof -
    have "real_of_int (e + 1) = real p - real n" using p by (simp add: e_def)
    then show ?thesis by (simp add: powr_diff powr_realpow)
  qed
  have "2 powr real_of_int e \<le> \<bar>a\<bar>" and "\<bar>a\<bar> < 2 powr real_of_int (e + 1)"
    unfolding pe pe1 using lo hi by (simp_all add: field_simps)
  then have "\<lfloor>log 2 \<bar>a\<bar>\<rfloor> = e"
    using nz by (subst floor_log_eq_powr_iff) simp_all
  then have m: "max \<lfloor>log 2 \<bar>a\<bar>\<rfloor> emin = e" using em by (simp add: e_def)
  have "real_of_int (e - int p + 1) = - real n" by (simp add: e_def)
  then have q: "2 powr real_of_int (e - int p + 1) = 1 / 2 ^ n"
    by (simp add: powr_minus powr_realpow divide_inverse)
  show ?thesis
    unfolding round_float_def Let_def m q using nz by simp
qed

lemma double_eval:
  "2 ^ 52 \<le> \<bar>a\<bar> * 2 ^ n \<Longrightarrow> \<bar>a\<bar> * 2 ^ n < 2 ^ 53 \<Longrightarrow> n \<le> 1074 \<Longrightarrow>
   double a = real_of_int (round_even (a * 2 ^ n)) / 2 ^ n"
  unfolding double_def by (rule round_float_eval) simp_all


lemma is_float_dyadic:
  assumes "\<bar>k\<bar> < 2 ^ p" and "emin - int p + 1 \<le> - int n"
  shows "is_float p emin (real_of_int k / 2 ^ n)"
proof -
  have "real_of_int k / 2 ^ n = real_of_int k * 2 powr real_of_int (- int n)"
    by (simp add: powr_minus powr_realpow divide_inverse)
  then show ?thesis
    unfolding is_float_def using assms by (intro exI [where x = k] exI [where x = "- int n"]) simp
qed

lemma is_float_int:
  assumes "\<bar>k\<bar> < 2 ^ p" and "emin - int p + 1 \<le> 0"
  shows "is_float p emin (real_of_int k)"
  using is_float_dyadic [of k p emin 0] assms by simp

lemma double_zero [simp]: "double 0 = 0" by (simp add: double_def round_float_def)
lemma fround_zero [simp]: "fround 0 = 0" by (simp add: fround_def round_float_def)

text \<open>Doubles and single precision numbers.\<close>

lemma double_le: "is_float 53 (- 1022) r \<Longrightarrow> a \<le> r \<Longrightarrow> double a \<le> r"
  unfolding double_def by (rule round_float_le) simp_all

lemma double_ge: "is_float 53 (- 1022) r \<Longrightarrow> r \<le> a \<Longrightarrow> r \<le> double a"
  unfolding double_def by (rule round_float_ge) simp_all

lemma double_id: "is_float 53 (- 1022) r \<Longrightarrow> double r = r"
  unfolding double_def by (rule round_float_id) simp_all

lemma is_double_dyadic:
  "\<bar>k\<bar> < 2 ^ 53 \<Longrightarrow> n \<le> 1074 \<Longrightarrow> is_float 53 (- 1022) (real_of_int k / 2 ^ n)"
  by (rule is_float_dyadic) simp_all

lemma is_double_nat: "k < 2 ^ 53 \<Longrightarrow> is_float 53 (- 1022) (real k)"
  using is_double_dyadic [of "int k" 0] by simp

lemma double_tenth: "double (1 / 10) = 3602879701896397 / 2 ^ 55"
  by (subst double_eval [where n = 56]) (simp_all add: round_even_def)

lemma double_half: "double 0.5 = 1 / 2"
  using double_id [OF is_double_dyadic [of 1 1]] by simp

text \<open>The relative error of a rounding to double, where no underflow occurs.\<close>

lemma double_error:
  assumes "a = 0 \<or> 1 / 2 ^ n \<le> \<bar>a\<bar>" and "n \<le> 1022"
  shows "\<bar>double a - a\<bar> \<le> \<bar>a\<bar> / 2 ^ 53"
proof (cases "a = 0")
  case True
  then show ?thesis by simp
next
  case False
  have "2 powr real_of_int (- 1022) \<le> 2 powr (- real n)"
    using assms(2) by simp
  also have "\<dots> = 1 / 2 ^ n"
    by (simp add: powr_minus powr_realpow divide_inverse)
  finally have "2 powr real_of_int (- 1022) \<le> \<bar>a\<bar>" using assms(1) False by simp
  then show ?thesis unfolding double_def by (rule round_float_error)
qed

lemma double_between:
  fixes u :: real
  defines "u \<equiv> 1 / 2 ^ 53"
  assumes "0 \<le> l" and "l \<le> a" and "a \<le> h" and "a = 0 \<or> 1 / 2 ^ n \<le> a" and "n \<le> 1022"
  shows "l * (1 - u) \<le> double a \<and> double a \<le> h * (1 + u)"
proof -
  have u: "0 \<le> u" "u \<le> 1" by (simp_all add: u_def)
  have a: "0 \<le> a" using assms(2,3) by simp
  then have "\<bar>double a - a\<bar> \<le> a * u"
    using double_error [of a n] assms(5,6) by (simp add: u_def)
  then have "a * (1 - u) \<le> double a" and "double a \<le> a * (1 + u)"
    unfolding abs_le_iff by (simp_all add: algebra_simps)
  moreover have "l * (1 - u) \<le> a * (1 - u)"
    using assms(3) u by (intro mult_right_mono) simp_all
  moreover have "a * (1 + u) \<le> h * (1 + u)"
    using assms(4) u by (intro mult_right_mono) simp_all
  ultimately show ?thesis by linarith
qed

lemma js_double_small:
  assumes "\<bar>a\<bar> \<le> 2 ^ 52"
  shows "js_double a = Num (double a)"
proof -
  have f: "is_float 53 (- 1022) (2 ^ 52)" "is_float 53 (- 1022) (- (2 ^ 52))"
    using is_double_dyadic [of "2 ^ 52" 0] is_double_dyadic [of "- (2 ^ 52)" 0] by simp_all
  have "double a \<le> 2 ^ 52" and "- (2 ^ 52) \<le> double a"
    using assms double_le [OF f(1), of a] double_ge [OF f(2), of a] by (simp_all add: abs_le_iff)
  then have "\<bar>double a\<bar> < 2 ^ 1024" by (simp add: abs_if)
  then show ?thesis by (simp add: js_double_def)
qed

lemma power_upper:
  fixes u :: real
  assumes "0 \<le> u"
  shows "real k * u \<le> 1 / 2 \<Longrightarrow> (1 + u) ^ k \<le> 1 + 2 * real k * u"
proof (induction k)
  case 0
  then show ?case by simp
next
  case (Suc k)
  have ku: "real k * u \<le> 1 / 2" using Suc.prems assms by (simp add: algebra_simps) 
  have "(1 + u) ^ Suc k = (1 + u) ^ k * (1 + u)" by simp
  also have "\<dots> \<le> (1 + 2 * real k * u) * (1 + u)"
    using Suc.IH [OF ku] assms by (intro mult_right_mono) simp_all
  also have "\<dots> = 1 + 2 * real k * u + u + (2 * (real k * u)) * u"
    by (simp add: algebra_simps)
  also have "\<dots> \<le> 1 + 2 * real k * u + u + 1 * u"
    using ku assms by (intro add_left_mono mult_right_mono) simp_all
  also have "\<dots> = 1 + 2 * real (Suc k) * u" by (simp add: algebra_simps)
  finally show ?case .
qed

lemma power_lower:
  fixes u :: real
  assumes "0 \<le> u" and "u \<le> 1"
  shows "1 - real k * u \<le> (1 - u) ^ k"
  using Bernoulli_inequality [of "- u" k] assms by simp




lemma fround_le: "is_float 24 (- 126) r \<Longrightarrow> a \<le> r \<Longrightarrow> fround a \<le> r"
  unfolding fround_def by (rule round_float_le) simp_all

lemma fround_ge: "is_float 24 (- 126) r \<Longrightarrow> r \<le> a \<Longrightarrow> r \<le> fround a"
  unfolding fround_def by (rule round_float_ge) simp_all












section \<open>The spectrum analyser\<close>

text \<open>The two ranges are \<open>L div 10\<close> and \<open>L div 2\<close>.\<close>

lemma floor_tenth:
  assumes "L \<le> 2 ^ 32"
  shows "nat \<lfloor>double (real L * double 0.1)\<rfloor> = L div 10"
proof -
  define k where "k = L div 10"
  define r where "r = L mod 10"
  have L: "real L = 10 * real k + real r" and r: "real r \<le> 9"
    unfolding k_def r_def
    by (metis mult.commute div_mult_mod_eq of_nat_add of_nat_mult of_nat_numeral, simp) 
  let ?a = "real L * (3602879701896397 / 2 ^ 55)"
  have "real L \<le> 2 ^ 32" using assms by (metis of_nat_le_iff of_nat_numeral of_nat_power)
  then have b: "real k \<le> ?a" "?a \<le> (16 * real k + 15) / 2 ^ 4"
    using L r by simp_all
  have kL: "k \<le> L" unfolding k_def by simp
  then have kk: "k < 2 ^ 53" using assms by simp
  have f1: "is_float 53 (- 1022) (real k)"
    using kk by (rule is_double_nat)
  have "\<bar>int (16 * k + 15)\<bar> < 2 ^ 53" using kL assms by simp
  then have "is_float 53 (- 1022) (real_of_int (int (16 * k + 15)) / 2 ^ 4)"
    by (rule is_double_dyadic) simp
  then have f2: "is_float 53 (- 1022) ((16 * real k + 15) / 2 ^ 4)" by simp
  have "real k \<le> double ?a" and "double ?a \<le> (16 * real k + 15) / 2 ^ 4"
    using double_ge [OF f1 b(1)] double_le [OF f2 b(2)] by simp_all
  then have "\<lfloor>double ?a\<rfloor> = int k"
    by (intro floor_unique) simp_all
  then show ?thesis
    unfolding double_tenth by (simp only: nat_int k_def)
qed

lemma floor_half:
  assumes "L \<le> 2 ^ 32"
  shows "nat \<lfloor>double (real L * double 0.5)\<rfloor> = L div 2"
proof -
  have "\<bar>int L\<bar> < 2 ^ 53" using assms by simp
  then have "is_float 53 (- 1022) (real_of_int (int L) / 2 ^ 1)"
    by (rule is_double_dyadic) simp
  then have "is_float 53 (- 1022) (real L * (1 / 2))" by simp
  then have "double (real L * (1 / 2)) = real L * (1 / 2)"
    by (rule double_id)
  moreover have "nat \<lfloor>real L / real 2\<rfloor> = L div 2"
    by (simp only: floor_divide_of_nat_eq nat_int)
  then have "nat \<lfloor>real L * (1 / 2)\<rfloor> = L div 2" by simp
  ultimately show ?thesis
    unfolding double_half by (simp only:)
qed

lemma band_sum_Suc: "band_sum val (Suc n) = double_add (band_sum val n) val"
  by (simp add: band_sum_def)

lemma band_sum_0: "band_sum val 0 = Num 0"
  by (simp add: band_sum_def)

text \<open>The quotient \<open>m / 255.0\<close> of a byte, as a double.\<close>

lemma byte_quotient:
  fixes m :: "8 word"
  defines "v \<equiv> real (unat m) / 255" and "u \<equiv> 1 / 2 ^ 53"
  shows "double_div (Num (real (unat m))) (Num 255) = Num (double v)"
    and "0 \<le> v" and "v \<le> 1"
    and "double v = 0 \<or> 1 / 2 ^ 8 \<le> double v" and "double v \<le> 1"
    and "v * (1 - u) \<le> double v" and "double v \<le> v * (1 + u)"
proof -
  define a where "a = unat m"
  have va: "v = real a / 255" unfolding v_def a_def ..
  have "unat m < 256" using unsigned_less [of m, where 'a = nat] by simp
  then have a: "a \<le> 255" by (simp add: a_def)
  then have "real a \<le> real 255" by (simp only: of_nat_le_iff)
  then show v: "0 \<le> v" "v \<le> 1" unfolding va by simp_all
  then have "js_double v = Num (double v)"
    by (intro js_double_small) simp
  then show "double_div (Num (real (unat m))) (Num 255) = Num (double v)"
    unfolding v_def by simp
  have one: "is_float 53 (- 1022) 1" using is_double_dyadic [of 1 0] by simp
  show "double v \<le> 1" using double_le [OF one v(2)] .
  have small: "is_float 53 (- 1022) (1 / 2 ^ 8)" using is_double_dyadic [of 1 8] by simp
  have nz: "v = 0 \<or> 1 / 2 ^ 8 \<le> v"
  proof (cases "a = 0")
    case True
    then show ?thesis by (simp add: va)
  next
    case False
    then have "1 \<le> real a" by simp
    then show ?thesis by (simp add: va)
  qed
  then show "double v = 0 \<or> 1 / 2 ^ 8 \<le> double v"
    using double_ge [OF small, of v] by auto
  show "v * (1 - u) \<le> double v" "double v \<le> v * (1 + u)"
    using double_between [OF v(1) order_refl order_refl nz] by (simp_all add: u_def)
qed

lemma power_near_one:
  fixes u :: real
  defines "u \<equiv> 1 / 2 ^ 53"
  assumes "k \<le> 2 ^ 15"
  shows "(1 + u) ^ k \<le> 1 + 2 * real k * u" and "1 - real k * u \<le> (1 - u) ^ k"
    and "(1 + u) ^ k \<le> 2" and "1 / 2 \<le> (1 - u) ^ k" and "1 \<le> (1 + u) ^ k" and "(1 - u) ^ k \<le> 1"
proof -
  have u: "0 \<le> u" "u \<le> 1" by (simp_all add: u_def)
  have "real k \<le> 2 ^ 15" using assms(2) by (metis of_nat_le_iff of_nat_numeral of_nat_power)
  then have ku: "real k * u \<le> 1 / 2 ^ 38"
    by (simp add: u_def)
  then have ku': "real k * u \<le> 1 / 2" by simp
  show a: "(1 + u) ^ k \<le> 1 + 2 * real k * u" using power_upper [OF u(1) ku'] .
  show b: "1 - real k * u \<le> (1 - u) ^ k" using power_lower [OF u] .
  show "(1 + u) ^ k \<le> 2" using a ku' by linarith
  show "1 / 2 \<le> (1 - u) ^ k" using b ku' by linarith
  show "1 \<le> (1 + u) ^ k" using u by (intro one_le_power) simp
  show "(1 - u) ^ k \<le> 1" using u by (intro power_le_one) simp_all
qed

text \<open>The sum of \<open>k\<close> copies of a value, as the loop adds them.\<close>

lemma band_sum_bounds:
  fixes w u :: real
  defines "u \<equiv> 1 / 2 ^ 53"
  assumes w: "w = 0 \<or> 1 / 2 ^ 8 \<le> w" "w \<le> 1"
  shows "k \<le> 2 ^ 14 \<Longrightarrow>
    \<exists>s. band_sum (Num w) k = Num s \<and> real k * w * (1 - u) ^ k \<le> s \<and> s \<le> real k * w * (1 + u) ^ k"
proof (induction k)
  case 0
  then show ?case by (simp add: band_sum_0)
next
  case (Suc k)
  then have k: "k \<le> 2 ^ 15" by simp
  from Suc obtain s where s: "band_sum (Num w) k = Num s"
    and lo: "real k * w * (1 - u) ^ k \<le> s" and hi: "s \<le> real k * w * (1 + u) ^ k"
    by auto
  have w0: "0 \<le> w" using w(1) by auto
  note pw = power_near_one [OF k, folded u_def]
  define l where "l = real (Suc k) * w * (1 - u) ^ k"
  define h where "h = real (Suc k) * w * (1 + u) ^ k"
  have "w * (1 - u) ^ k \<le> w * 1" and "w * 1 \<le> w * (1 + u) ^ k"
    using w0 pw(5) pw(6) by (simp_all only: mult_left_mono)
  then have la: "l \<le> s + w" and ah: "s + w \<le> h"
    using lo hi by (simp_all add: l_def h_def algebra_simps)
  have l0: "0 \<le> l" using w0 pw(4) by (simp add: l_def)
  have s0: "0 \<le> s"
  proof -
    have "0 \<le> real k * w * (1 - u) ^ k" using w0 pw(4) by simp
    then show ?thesis using lo by linarith
  qed
  have nz: "s + w = 0 \<or> 1 / 2 ^ 8 \<le> s + w"
  proof (cases "w = 0")
    case True
    then show ?thesis using lo hi by simp
  next
    case False
    then show ?thesis using w(1) s0 by auto
  qed
  have b: "l * (1 - u) \<le> double (s + w)" "double (s + w) \<le> h * (1 + u)"
    using double_between [OF l0 la ah nz] by (simp_all add: u_def)
  have "h \<le> (2 ^ 14 + 1) * 1 * 2"
    unfolding h_def using Suc.prems w0 w(2) pw(3) pw(5)
    by (intro mult_mono) simp_all
  then have "\<bar>s + w\<bar> \<le> 2 ^ 52" using ah s0 w0 by simp
  then have "band_sum (Num w) (Suc k) = Num (double (s + w))"
    by (simp add: band_sum_Suc s js_double_small)
  moreover have "real (Suc k) * w * (1 - u) ^ Suc k = l * (1 - u)"
    and "real (Suc k) * w * (1 + u) ^ Suc k = h * (1 + u)"
    by (simp_all add: l_def h_def)
  ultimately show ?case using b by (intro exI [where x = "double (s + w)"]) (simp only:)
qed

text \<open>The mean of a band of \<open>n\<close> equal bytes, as the loop and the division compute it.\<close>

lemma band_mean:
  fixes m :: "8 word"
  defines "v \<equiv> real (unat m) / 255"
  assumes n: "1 \<le> n" "n + 2 \<le> L" and L: "L \<le> 2 ^ 14"
  shows "\<exists>b. double_div (band_sum (double_div (Num (real (unat m))) (Num 255)) n) (Num (real n))
             = Num b \<and> \<bar>b - v\<bar> \<le> real L / 2 ^ 52 * v"
proof -
  define u :: real where "u = 1 / 2 ^ 53"
  define w where "w = double v"
  note bq = byte_quotient [of m, folded v_def u_def w_def]
  have n14: "n \<le> 2 ^ 14" and n15: "n \<le> 2 ^ 15" and n2: "n + 2 \<le> 2 ^ 15"
    using n(2) L by simp_all
  from band_sum_bounds [OF bq(4,5) n14, folded u_def]
  obtain s where s: "band_sum (Num w) n = Num s"
    and lo: "real n * w * (1 - u) ^ n \<le> s" and hi: "s \<le> real n * w * (1 + u) ^ n"
    by auto
  note pn = power_near_one [OF n15, folded u_def]
  note pn2 = power_near_one [OF n2, folded u_def]
  have u: "0 \<le> u" "u \<le> 1" by (simp_all add: u_def)
  have w0: "0 \<le> w" using bq(4) by auto
  have rn: "0 < real n" using n(1) by simp
  define a where "a = s / real n"
  define l where "l = w * (1 - u) ^ n"
  define h where "h = w * (1 + u) ^ n"
  have la: "l \<le> a" and ah: "a \<le> h"
    using lo hi rn by (simp_all add: a_def l_def h_def field_simps)
  have l0: "0 \<le> l" using w0 pn(4) by (simp add: l_def)
  have nz: "a = 0 \<or> 1 / 2 ^ 9 \<le> a"
  proof (cases "w = 0")
    case True
    then show ?thesis using lo hi by (simp add: a_def)
  next
    case False
    then have "1 / 2 ^ 8 \<le> w" using bq(4) by simp
    then have "1 / 2 ^ 8 * (1 / 2) \<le> w * (1 - u) ^ n"
      using pn(4) by (intro mult_mono) simp_all
    then show ?thesis using la by (simp add: l_def)
  qed
  have b: "l * (1 - u) \<le> double a" "double a \<le> h * (1 + u)"
    using double_between [OF l0 la ah nz] by (simp_all add: u_def)
  have "h \<le> 1 * 2"
    unfolding h_def using w0 bq(5) pn(3) pn(5) by (intro mult_mono) simp_all
  then have "\<bar>a\<bar> \<le> 2 ^ 52" using ah la l0 by simp
  then have out: "double_div (band_sum (double_div (Num (real (unat m))) (Num 255)) n) (Num (real n))
      = Num (double a)"
    unfolding bq(1) s using rn by (simp add: a_def js_double_small)
  have "v * (1 - u) * (1 - u) ^ Suc n \<le> w * (1 - u) ^ Suc n"
    using bq(6) u by (intro mult_right_mono) simp_all
  then have lo2: "v * (1 - u) ^ (n + 2) \<le> double a"
    using b(1) by (simp add: l_def algebra_simps)
  have "w * (1 + u) ^ Suc n \<le> v * (1 + u) * (1 + u) ^ Suc n"
    using bq(7) u by (intro mult_right_mono) simp_all
  then have hi2: "double a \<le> v * (1 + u) ^ (n + 2)"
    using b(2) by (simp add: h_def algebra_simps)
  have nL: "real (n + 2) \<le> real L" using n(2) by (simp only: of_nat_le_iff)
  have "v * (1 + u) ^ (n + 2) \<le> v * (1 + 2 * real (n + 2) * u)"
    using pn2(1) bq(2) by (intro mult_left_mono) simp_all
  also have "\<dots> \<le> v * (1 + 2 * real L * u)"
    using nL bq(2) u by (intro mult_left_mono add_left_mono mult_right_mono) simp_all
  finally have up: "double a - v \<le> v * (2 * real L * u)"
    using hi2 by (simp add: algebra_simps)
  have "v * (1 - real L * u) \<le> v * (1 - real (n + 2) * u)"
    using nL bq(2) u by (intro mult_left_mono diff_left_mono mult_right_mono) simp_all
  also have "\<dots> \<le> v * (1 - u) ^ (n + 2)"
    using pn2(2) bq(2) by (intro mult_left_mono) simp_all
  finally have "v - double a \<le> v * (real L * u)"
    using lo2 by (simp add: algebra_simps)
  also have "\<dots> \<le> v * (2 * real L * u)"
    using bq(2) u by (intro mult_left_mono) simp_all
  finally have dn: "v - double a \<le> v * (2 * real L * u)" .
  have "v * (2 * real L * u) = real L / 2 ^ 52 * v" by (simp add: u_def)
  then have "\<bar>double a - v\<bar> \<le> real L / 2 ^ 52 * v"
    using up dn by (simp only: abs_le_iff) simp
  with out show ?thesis by blast
qed

lemma fold_flat:
  fixes m :: "8 word"
  assumes "bR \<le> mR"
  defines "val \<equiv> double_div (Num (real (unat m))) (Num 255)"
  shows "n \<le> L \<Longrightarrow> fold (band_step (replicate L m) bR mR) [0..<n] (Num 0, Num 0, Num 0)
     = (band_sum val (min n bR), band_sum val (min n mR - min n bR), band_sum val (n - min n mR))"
proof (induction n)
  case 0
  then show ?case by (simp add: band_sum_0)
next
  case (Suc n)
  then have n: "n < L" by simp
  have rd: "read_u8 (replicate L m) n = Num (real (unat m))"
    using n by (simp add: read_u8_def)
  have step: "band_step (replicate L m) bR mR n (b, mi, t) =
      (if n < bR then (double_add b val, mi, t)
       else if n < mR then (b, double_add mi val, t) else (b, mi, double_add t val))" for b mi t
    unfolding band_step_def rd val_def by (simp add: Let_def)
  have "fold (band_step (replicate L m) bR mR) [0..<Suc n] (Num 0, Num 0, Num 0)
      = band_step (replicate L m) bR mR n
          (fold (band_step (replicate L m) bR mR) [0..<n] (Num 0, Num 0, Num 0))"
    by simp
  also have "\<dots> = band_step (replicate L m) bR mR n
      (band_sum val (min n bR), band_sum val (min n mR - min n bR), band_sum val (n - min n mR))"
    using Suc by simp
  finally have f: "fold (band_step (replicate L m) bR mR) [0..<Suc n] (Num 0, Num 0, Num 0)
      = (if n < bR then (double_add (band_sum val (min n bR)) val,
                         band_sum val (min n mR - min n bR), band_sum val (n - min n mR))
         else if n < mR then (band_sum val (min n bR),
                         double_add (band_sum val (min n mR - min n bR)) val,
                         band_sum val (n - min n mR))
         else (band_sum val (min n bR), band_sum val (min n mR - min n bR),
               double_add (band_sum val (n - min n mR)) val))"
    unfolding step .
  consider "n < bR" | "bR \<le> n" "n < mR" | "mR \<le> n" by linarith
  then show ?case
  proof cases
    case 1
    then have "min (Suc n) bR = Suc n" "min n bR = n" "min (Suc n) mR = Suc n" "min n mR = n"
      using assms(1) by simp_all
    then show ?thesis
      unfolding f using 1 by (simp add: band_sum_Suc)
  next
    case 2
    then have e: "min (Suc n) bR = bR" "min n bR = bR" "min (Suc n) mR = Suc n" "min n mR = n"
      by simp_all
    have "Suc n - bR = Suc (n - bR)" using 2 by simp
    then show ?thesis
      unfolding f using 2 by (simp add: e band_sum_Suc)
  next
    case 3
    then have e: "min (Suc n) bR = bR" "min n bR = bR" "min (Suc n) mR = mR" "min n mR = mR"
      using assms(1) by simp_all
    have "Suc n - mR = Suc (n - mR)" using 3 by simp
    then show ?thesis
      unfolding f using 3 assms(1) by (simp add: e band_sum_Suc)
  qed
qed

lemma getByteFrequencyData_flat:
  "length arr = L \<Longrightarrow> byteFrequencyData an = replicate L m \<Longrightarrow>
   getByteFrequencyData an arr = replicate L m"
  by (simp add: getByteFrequencyData_def)

lemma getFrequencyData_flat:
  fixes m :: "8 word"
  assumes "analyser s = Some an" and "dataArray s = Some arr"
    and "frequencyBinCount an = L" and "length arr = L"
    and "byteFrequencyData an = replicate L m" and "L \<le> 2 ^ 32"
  defines "val \<equiv> double_div (Num (real (unat m))) (Num 255)"
  shows "fst (getFrequencyData s) =
      \<lparr>bass = double_div (band_sum val (L div 10)) (Num (real (L div 10))),
       mid = double_div (band_sum val (L div 2 - L div 10)) (Num (real (L div 2 - L div 10))),
       treble = double_div (band_sum val (L - L div 2)) (Num (real (L - L div 2)))\<rparr>"
proof -
  have le: "L div 10 \<le> L div 2" by simp
  have m1: "min L (L div 10) = L div 10" and m2: "min L (L div 2) = L div 2"
    by simp_all
  have fl: "fold (band_step (replicate L m) (L div 10) (L div 2)) [0..<L] (Num 0, Num 0, Num 0)
     = (band_sum val (L div 10), band_sum val (L div 2 - L div 10), band_sum val (L - L div 2))"
    using fold_flat [OF le, of L L m] by (simp only: m1 m2 le_refl val_def)
  have gb: "getByteFrequencyData an arr = replicate L m"
    using assms(4,5) by (rule getByteFrequencyData_flat)
  have r1: "real (L div 2) - real (L div 10) = real (L div 2 - L div 10)"
    using le by (simp only: of_nat_diff)
  have r2: "real L - real (L div 2) = real (L - L div 2)"
    by (simp only: of_nat_diff div_le_dividend)
  show ?thesis
    by (simp only: getFrequencyData_def assms(1-3) option.case prod.case Let_def gb
        floor_tenth [OF assms(6)] floor_half [OF assms(6)] fl r1 r2 fst_conv)
qed

lemma band_sum_step:
  "band_sum (Num v) k = Num s \<Longrightarrow> double (s + v) = s' \<Longrightarrow> \<bar>s + v\<bar> \<le> 2 ^ 52 \<Longrightarrow>
   n = Suc k \<Longrightarrow> band_sum (Num v) n = Num s'"
  by (simp add: band_sum_Suc js_double_small)

text \<open>
  The bass band of 256 bins of magnitude 3, step by step: the quotient \<open>3 / 255.0\<close>,
  the 25 additions, and the division by 25.
\<close>

lemma flat_three_val:
  "double_div (Num 3) (Num 255) = Num (847736400446211 / 2 ^ 56)"
proof -
  have "double (3 / 255) = 847736400446211 / 2 ^ 56"
    by (subst double_eval [where n = 59]) (simp_all add: round_even_def)
  then show ?thesis by (simp add: js_double_small)
qed

lemma flat_three_sum:
  "band_sum (Num (847736400446211 / 2 ^ 56)) 25 = Num (2649176251394411 / 2 ^ 53)"
proof -
  let ?v = "Num (847736400446211 / 2 ^ 56)"
  have s0: "band_sum ?v 0 = Num 0" by (rule band_sum_0)
  have d1: "double (0 + 847736400446211 / 2 ^ 56) = 847736400446211 / 2 ^ 56"
    by (subst double_eval [where n = 59]) (simp_all add: round_even_def)
  have s1: "band_sum ?v 1 = Num (847736400446211 / 2 ^ 56)"
    by (rule band_sum_step [OF s0 d1]) simp_all
  have d2: "double (847736400446211 / 2 ^ 56 + 847736400446211 / 2 ^ 56) = 847736400446211 / 2 ^ 55"
    by (subst double_eval [where n = 58]) (simp_all add: round_even_def)
  have s2: "band_sum ?v 2 = Num (847736400446211 / 2 ^ 55)"
    by (rule band_sum_step [OF s1 d2]) simp_all
  have d3: "double (847736400446211 / 2 ^ 55 + 847736400446211 / 2 ^ 56) = 2543209201338633 / 2 ^ 56"
    by (subst double_eval [where n = 57]) (simp_all add: round_even_def)
  have s3: "band_sum ?v 3 = Num (2543209201338633 / 2 ^ 56)"
    by (rule band_sum_step [OF s2 d3]) simp_all
  have d4: "double (2543209201338633 / 2 ^ 56 + 847736400446211 / 2 ^ 56) = 847736400446211 / 2 ^ 54"
    by (subst double_eval [where n = 57]) (simp_all add: round_even_def)
  have s4: "band_sum ?v 4 = Num (847736400446211 / 2 ^ 54)"
    by (rule band_sum_step [OF s3 d4]) simp_all
  have d5: "double (847736400446211 / 2 ^ 54 + 847736400446211 / 2 ^ 56) = 4238682002231055 / 2 ^ 56"
    by (subst double_eval [where n = 57]) (simp_all add: round_even_def)
  have s5: "band_sum ?v 5 = Num (4238682002231055 / 2 ^ 56)"
    by (rule band_sum_step [OF s4 d5]) simp_all
  have d6: "double (4238682002231055 / 2 ^ 56 + 847736400446211 / 2 ^ 56) = 2543209201338633 / 2 ^ 55"
    by (subst double_eval [where n = 56]) (simp_all add: round_even_def)
  have s6: "band_sum ?v 6 = Num (2543209201338633 / 2 ^ 55)"
    by (rule band_sum_step [OF s5 d6]) simp_all
  have d7: "double (2543209201338633 / 2 ^ 55 + 847736400446211 / 2 ^ 56) = 5934154803123477 / 2 ^ 56"
    by (subst double_eval [where n = 56]) (simp_all add: round_even_def)
  have s7: "band_sum ?v 7 = Num (5934154803123477 / 2 ^ 56)"
    by (rule band_sum_step [OF s6 d7]) simp_all
  have d8: "double (5934154803123477 / 2 ^ 56 + 847736400446211 / 2 ^ 56) = 847736400446211 / 2 ^ 53"
    by (subst double_eval [where n = 56]) (simp_all add: round_even_def)
  have s8: "band_sum ?v 8 = Num (847736400446211 / 2 ^ 53)"
    by (rule band_sum_step [OF s7 d8]) simp_all
  have d9: "double (847736400446211 / 2 ^ 53 + 847736400446211 / 2 ^ 56) = 7629627604015899 / 2 ^ 56"
    by (subst double_eval [where n = 56]) (simp_all add: round_even_def)
  have s9: "band_sum ?v 9 = Num (7629627604015899 / 2 ^ 56)"
    by (rule band_sum_step [OF s8 d9]) simp_all
  have d10: "double (7629627604015899 / 2 ^ 56 + 847736400446211 / 2 ^ 56) = 4238682002231055 / 2 ^ 55"
    by (subst double_eval [where n = 56]) (simp_all add: round_even_def)
  have s10: "band_sum ?v 10 = Num (4238682002231055 / 2 ^ 55)"
    by (rule band_sum_step [OF s9 d10]) simp_all
  have d11: "double (4238682002231055 / 2 ^ 55 + 847736400446211 / 2 ^ 56) = 291409387653385 / 2 ^ 51"
    by (subst double_eval [where n = 55]) (simp_all add: round_even_def)
  have s11: "band_sum ?v 11 = Num (291409387653385 / 2 ^ 51)"
    by (rule band_sum_step [OF s10 d11]) simp_all
  have d12: "double (291409387653385 / 2 ^ 51 + 847736400446211 / 2 ^ 56) = 2543209201338633 / 2 ^ 54"
    by (subst double_eval [where n = 55]) (simp_all add: round_even_def)
  have s12: "band_sum ?v 12 = Num (2543209201338633 / 2 ^ 54)"
    by (rule band_sum_step [OF s11 d12]) simp_all
  have d13: "double (2543209201338633 / 2 ^ 54 + 847736400446211 / 2 ^ 56) = 1377571650725093 / 2 ^ 53"
    by (subst double_eval [where n = 55]) (simp_all add: round_even_def)
  have s13: "band_sum ?v 13 = Num (1377571650725093 / 2 ^ 53)"
    by (rule band_sum_step [OF s12 d13]) simp_all
  have d14: "double (1377571650725093 / 2 ^ 53 + 847736400446211 / 2 ^ 56) = 2967077401561739 / 2 ^ 54"
    by (subst double_eval [where n = 55]) (simp_all add: round_even_def)
  have s14: "band_sum ?v 14 = Num (2967077401561739 / 2 ^ 54)"
    by (rule band_sum_step [OF s13 d14]) simp_all
  have d15: "double (2967077401561739 / 2 ^ 54 + 847736400446211 / 2 ^ 56) = 794752875418323 / 2 ^ 52"
    by (subst double_eval [where n = 55]) (simp_all add: round_even_def)
  have s15: "band_sum ?v 15 = Num (794752875418323 / 2 ^ 52)"
    by (rule band_sum_step [OF s14 d15]) simp_all
  have d16: "double (794752875418323 / 2 ^ 52 + 847736400446211 / 2 ^ 56) = 3390945601784845 / 2 ^ 54"
    by (subst double_eval [where n = 55]) (simp_all add: round_even_def)
  have s16: "band_sum ?v 16 = Num (3390945601784845 / 2 ^ 54)"
    by (rule band_sum_step [OF s15 d16]) simp_all
  have d17: "double (3390945601784845 / 2 ^ 54 + 847736400446211 / 2 ^ 56) = 1801439850948199 / 2 ^ 53"
    by (subst double_eval [where n = 55]) (simp_all add: round_even_def)
  have s17: "band_sum ?v 17 = Num (1801439850948199 / 2 ^ 53)"
    by (rule band_sum_step [OF s16 d17]) simp_all
  have d18: "double (1801439850948199 / 2 ^ 53 + 847736400446211 / 2 ^ 56) = 3814813802007951 / 2 ^ 54"
    by (subst double_eval [where n = 55]) (simp_all add: round_even_def)
  have s18: "band_sum ?v 18 = Num (3814813802007951 / 2 ^ 54)"
    by (rule band_sum_step [OF s17 d18]) simp_all
  have d19: "double (3814813802007951 / 2 ^ 54 + 847736400446211 / 2 ^ 56) = 251671743882469 / 2 ^ 50"
    by (subst double_eval [where n = 55]) (simp_all add: round_even_def)
  have s19: "band_sum ?v 19 = Num (251671743882469 / 2 ^ 50)"
    by (rule band_sum_step [OF s18 d19]) simp_all
  have d20: "double (251671743882469 / 2 ^ 50 + 847736400446211 / 2 ^ 56) = 4238682002231057 / 2 ^ 54"
    by (subst double_eval [where n = 55]) (simp_all add: round_even_def)
  have s20: "band_sum ?v 20 = Num (4238682002231057 / 2 ^ 54)"
    by (rule band_sum_step [OF s19 d20]) simp_all
  have d21: "double (4238682002231057 / 2 ^ 54 + 847736400446211 / 2 ^ 56) = 2225308051171305 / 2 ^ 53"
    by (subst double_eval [where n = 55]) (simp_all add: round_even_def)
  have s21: "band_sum ?v 21 = Num (2225308051171305 / 2 ^ 53)"
    by (rule band_sum_step [OF s20 d21]) simp_all
  have d22: "double (2225308051171305 / 2 ^ 53 + 847736400446211 / 2 ^ 56) = 4662550202454163 / 2 ^ 54"
    by (subst double_eval [where n = 54]) (simp_all add: round_even_def)
  have s22: "band_sum ?v 22 = Num (4662550202454163 / 2 ^ 54)"
    by (rule band_sum_step [OF s21 d22]) simp_all
  have d23: "double (4662550202454163 / 2 ^ 54 + 847736400446211 / 2 ^ 56) = 1218621075641429 / 2 ^ 52"
    by (subst double_eval [where n = 54]) (simp_all add: round_even_def)
  have s23: "band_sum ?v 23 = Num (1218621075641429 / 2 ^ 52)"
    by (rule band_sum_step [OF s22 d23]) simp_all
  have d24: "double (1218621075641429 / 2 ^ 52 + 847736400446211 / 2 ^ 56) = 5086418402677269 / 2 ^ 54"
    by (subst double_eval [where n = 54]) (simp_all add: round_even_def)
  have s24: "band_sum ?v 24 = Num (5086418402677269 / 2 ^ 54)"
    by (rule band_sum_step [OF s23 d24]) simp_all
  have d25: "double (5086418402677269 / 2 ^ 54 + 847736400446211 / 2 ^ 56) = 2649176251394411 / 2 ^ 53"
    by (subst double_eval [where n = 54]) (simp_all add: round_even_def)
  have s25: "band_sum ?v 25 = Num (2649176251394411 / 2 ^ 53)"
    by (rule band_sum_step [OF s24 d25]) simp_all
  show ?thesis by (rule s25)
qed

lemma flat_three_bass:
  "double_div (Num (2649176251394411 / 2 ^ 53)) (Num 25) = Num (1695472800892423 / 2 ^ 57)"
proof -
  have "double (2649176251394411 / 2 ^ 53 / 25) = 1695472800892423 / 2 ^ 57"
    by (subst double_eval [where n = 59]) (simp_all add: round_even_def)
  then show ?thesis by (simp add: js_double_small)
qed

text \<open>
  C4 (as amended). When the analyser has \<open>L\<close> bins, between 16 and 16384 as an
  \<open>AnalyserNode\<close> has (256 in the program), the data array has the same length and
  every magnitude is the same byte \<open>m\<close>, the three bands returned are finite and each is
  within \<open>L \<sqdot> 2\<^sup>-\<^sup>5\<^sup>2 \<sqdot> (m / 255)\<close> of \<open>m / 255\<close>: they are \<open>m / 255\<close> up to the rounding
  of the doubles.
\<close>

theorem flat_buffer_bands:
  assumes "analyser s = Some an" and "dataArray s = Some arr"
    and "frequencyBinCount an = L" and "length arr = L"
    and "byteFrequencyData an = replicate L m"
    and "16 \<le> L" and "L \<le> 16384"
  shows "bands_near (fst (getFrequencyData s)) (real (unat m) / 255)
           (real L / 2 ^ 52 * (real (unat m) / 255))"
proof -
  have L32: "L \<le> 2 ^ 32" and L14: "L \<le> 2 ^ 14" using assms(7) by simp_all
  have n: "1 \<le> L div 10" "L div 10 + 2 \<le> L"
    "1 \<le> L div 2 - L div 10" "L div 2 - L div 10 + 2 \<le> L"
    "1 \<le> L - L div 2" "L - L div 2 + 2 \<le> L"
    using assms(6) by simp_all
  from band_mean [OF n(1,2) L14, of m] band_mean [OF n(3,4) L14, of m]
    band_mean [OF n(5,6) L14, of m]
  show ?thesis
    unfolding getFrequencyData_flat [OF assms(1-5) L32] bands_near_def
    by auto
qed

text \<open>
  C4, witness: the analyser as \<open>init\<close> sets it up (\<open>fftSize = 512\<close>, 256 bins), every
  magnitude 128.
\<close>

theorem flat_buffer_bands_witness:
  "bands_near (fst (getFrequencyData (ready_service 256 (replicate 256 128)))) (128 / 255)
     (256 / 2 ^ 52 * (128 / 255))"
  using flat_buffer_bands [of "ready_service 256 (replicate 256 128)"
      "\<lparr>frequencyBinCount = 256, byteFrequencyData = replicate 256 128\<rparr>"
      "replicate 256 0" 256 128]
  by (simp add: ready_service_def)

text \<open>
  C4, counterexample to the claim as stated (exactly \<open>m / 255\<close>): with the 256 bins of
  the program, all of magnitude 3, the bass band is \<open>1695472800892423 / 2\<^sup>5\<^sup>7\<close>
  (0.011764705882352948), and the double \<open>3 / 255.0\<close> is \<open>847736400446211 / 2\<^sup>5\<^sup>6\<close>
  (0.011764705882352941): the 25 additions of the bass band round.
\<close>

theorem flat_buffer_rounding_counterexample:
  "bass (fst (getFrequencyData (ready_service 256 (replicate 256 3))))
     = Num (1695472800892423 / 2 ^ 57) \<and>
   flat_bands 3 = \<lparr>bass = Num (847736400446211 / 2 ^ 56), mid = Num (847736400446211 / 2 ^ 56),
                    treble = Num (847736400446211 / 2 ^ 56)\<rparr> \<and>
   fst (getFrequencyData (ready_service 256 (replicate 256 3))) \<noteq> flat_bands 3"
proof -
  have "fst (getFrequencyData (ready_service 256 (replicate 256 3))) =
      \<lparr>bass = double_div (band_sum (double_div (Num (real (unat (3 :: 8 word)))) (Num 255)) (256 div 10))
                (Num (real ((256::nat) div 10))),
       mid = double_div (band_sum (double_div (Num (real (unat (3 :: 8 word)))) (Num 255))
                (256 div 2 - 256 div 10)) (Num (real ((256::nat) div 2 - 256 div 10))),
       treble = double_div (band_sum (double_div (Num (real (unat (3 :: 8 word)))) (Num 255))
                (256 - 256 div 2)) (Num (real ((256::nat) - 256 div 2)))\<rparr>"
    by (rule getFrequencyData_flat [of _ "\<lparr>frequencyBinCount = 256, byteFrequencyData = replicate 256 3\<rparr>"
          "replicate 256 0"]) (simp_all add: ready_service_def)
  moreover have "real (unat (3 :: 8 word)) = 3" by simp
  moreover have "(256::nat) div 10 = 25" by simp
  ultimately have b: "bass (fst (getFrequencyData (ready_service 256 (replicate 256 3))))
      = Num (1695472800892423 / 2 ^ 57)"
    by (simp only: flat_three_val flat_three_sum flat_three_bass AudioData.simps of_nat_numeral)
  have f: "flat_bands 3 = \<lparr>bass = Num (847736400446211 / 2 ^ 56), mid = Num (847736400446211 / 2 ^ 56),
                    treble = Num (847736400446211 / 2 ^ 56)\<rparr>"
    unfolding flat_bands_def \<open>real (unat (3 :: 8 word)) = 3\<close> flat_three_val by (simp only: Let_def)
  have "bass (fst (getFrequencyData (ready_service 256 (replicate 256 3)))) \<noteq> bass (flat_bands 3)"
    unfolding b f by simp
  then have "fst (getFrequencyData (ready_service 256 (replicate 256 3))) \<noteq> flat_bands 3"
    by auto
  with b f show ?thesis by blast
qed

text \<open>
  C10. When the analyser or the data array is absent, \<open>getFrequencyData\<close> returns the
  bands \<open>{bass: 0, mid: 0, treble: 0}\<close> and leaves the service as it is.
\<close>

theorem getFrequencyData_uninitialised:
  "analyser s = None \<or> dataArray s = None \<Longrightarrow>
   getFrequencyData s = (\<lparr>bass = Num 0, mid = Num 0, treble = Num 0\<rparr>, s)"
  by (auto simp add: getFrequencyData_def split: option.splits)

text \<open>C10, witness: a service with a data array and no analyser.\<close>

theorem getFrequencyData_uninitialised_witness:
  "getFrequencyData \<lparr>analyser = None, dataArray = Some [1, 2, 3]\<rparr> =
     (\<lparr>bass = Num 0, mid = Num 0, treble = Num 0\<rparr>,
      \<lparr>analyser = None, dataArray = Some [1, 2, 3]\<rparr>)"
  using getFrequencyData_uninitialised [of "\<lparr>analyser = None, dataArray = Some [1, 2, 3]\<rparr>"]
  by simp

section \<open>The pop signal\<close>

lemma useFrame_smoothedBass:
  "smoothedBass (useFrame count tp a True st) = smooth (popBass (bass a)) (smoothedBass st)"
  by (simp add: useFrame_def)

lemma smooth_offset: "smooth p (p + d) = p + d * 0.7"
  by (simp add: smooth_def algebra_simps)

text \<open>The smoothed level after \<open>k\<close> frames with the same bass.\<close>

lemma funpow_useFrame_smoothedBass:
  "smoothedBass ((useFrame count tp a True ^^ k) st)
     = popBass (bass a) + (smoothedBass st - popBass (bass a)) * 0.7 ^ k"
proof (induction k)
  case 0
  then show ?case by simp
next
  case (Suc k)
  have "smoothedBass ((useFrame count tp a True ^^ Suc k) st)
      = smooth (popBass (bass a))
          (popBass (bass a) + (smoothedBass st - popBass (bass a)) * 0.7 ^ k)"
    by (simp only: funpow.simps o_apply useFrame_smoothedBass Suc.IH)
  also have "\<dots> = popBass (bass a) + (smoothedBass st - popBass (bass a)) * 0.7 ^ Suc k"
    by (simp only: smooth_offset power_Suc2 mult.assoc)
  finally show ?case .
qed

text \<open>
  C3. The pop value of a bass \<open>b\<close> is 0 below the gate 0.2 and the cube of \<open>b\<close>
  otherwise; a frame moves the smoothed level by 0.3 of its distance to the pop value;
  a bass of 0.15 gives pop 0, a bass of 1.0 gives pop 1.0; and one frame from a smoothed
  level of 0 gives 0.3 times the pop value.
\<close>

theorem pop_signal:
  "popBass b = (if b < 0.2 then 0 else b ^ 3) \<and>
   smoothedBass (useFrame count tp a True st)
     = smoothedBass st + (popBass (bass a) - smoothedBass st) * 0.3 \<and>
   popBass 0.15 = 0 \<and> popBass 1.0 = 1.0 \<and>
   (smoothedBass st = 0 \<longrightarrow>
      smoothedBass (useFrame count tp a True st) = 0.3 * popBass (bass a))"
  by (simp add: popBass_def useFrame_def smooth_def)

text \<open>C3, witness: one frame with bass 1.0 from the smoothed level 0.\<close>

theorem pop_signal_witness:
  "smoothedBass \<lparr>positions = [], smoothedBass = 0\<rparr> = 0 \<and>
   smoothedBass (useFrame 0 [] \<lparr>bass = 1, mid = 0, treble = 0\<rparr> True
      \<lparr>positions = [], smoothedBass = 0\<rparr>) = 0.3 * popBass 1 \<and> popBass 1 = 1"
  using pop_signal [where b = 1 and count = 0 and tp = "[]"
      and a = "\<lparr>bass = 1, mid = 0, treble = 0\<rparr>"
      and st = "\<lparr>positions = [], smoothedBass = 0\<rparr>"]
  by simp

text \<open>
  C2 (as amended). From a smoothed level of 0, with the bass 0.9 in every frame, the
  smoothed level after \<open>k\<close> frames is \<open>0.729 \<sqdot> (1 - 0.7\<^sup>k)\<close>, where \<open>0.729\<close> is the
  cube of 0.9; after 10 frames it is 0.7084 to four places.
\<close>

theorem constant_bass_smoothing:
  assumes "smoothedBass st = 0" and "bass a = 0.9"
  shows "smoothedBass ((useFrame count tp a True ^^ k) st) = 0.729 * (1 - 0.7 ^ k) \<and>
         \<bar>smoothedBass ((useFrame count tp a True ^^ 10) st) - 0.7084\<bar> < 0.0001"
proof -
  have p: "popBass (bass a) = 0.729"
    unfolding popBass_def assms(2) by (simp add: power3_eq_cube)
  have g: "smoothedBass ((useFrame count tp a True ^^ n) st) = 0.729 * (1 - 0.7 ^ n)" for n
    unfolding funpow_useFrame_smoothedBass p assms(1) by (simp add: algebra_simps)
  show ?thesis
    unfolding g by (simp add: power_def)
qed

text \<open>C2, witness: two frames.\<close>

theorem constant_bass_smoothing_witness:
  "smoothedBass ((useFrame 0 [] \<lparr>bass = 0.9, mid = 0, treble = 0\<rparr> True ^^ 2)
      \<lparr>positions = [], smoothedBass = 0\<rparr>) = 0.729 * (1 - 0.7 ^ 2)"
  using constant_bass_smoothing [where st = "\<lparr>positions = [], smoothedBass = 0\<rparr>"
      and a = "\<lparr>bass = 0.9, mid = 0, treble = 0\<rparr>" and count = 0 and tp = "[]" and k = 2]
  by simp

text \<open>
  C2, counterexample to the claim as stated: after one frame the smoothed level is
  0.2187, not \<open>0.9 \<sqdot> (1 - 0.7) = 0.27\<close>.
\<close>

theorem constant_bass_smoothing_counterexample:
  "smoothedBass ((useFrame 0 [] \<lparr>bass = 0.9, mid = 0, treble = 0\<rparr> True ^^ 1)
      \<lparr>positions = [], smoothedBass = 0\<rparr>) = 0.2187 \<and>
   smoothedBass ((useFrame 0 [] \<lparr>bass = 0.9, mid = 0, treble = 0\<rparr> True ^^ 1)
      \<lparr>positions = [], smoothedBass = 0\<rparr>) \<noteq> 0.9 * (1 - 0.7 ^ 1)"
  by (simp add: useFrame_def smooth_def popBass_def power3_eq_cube)

section \<open>The morph loop\<close>








lemma length_morph_axis [simp]: "length (morph_axis tp s j ps) = length ps"
  by (simp add: morph_axis_def)

lemma nth_morph_axis:
  "k < length ps \<Longrightarrow>
   morph_axis tp s j ps ! k = (if k = j then store_f32 (lerp_num tp s ps j) else ps ! k)"
  by (simp add: morph_axis_def)

lemma lerp_num_morph_axis:
  "k \<noteq> j \<Longrightarrow> lerp_num tp s (morph_axis tp s j ps) k = lerp_num tp s ps k"
  by (simp add: lerp_num_def read_f32_def nth_morph_axis)

lemma length_morph_particle [simp]: "length (morph_particle tp s i ps) = length ps"
  by (simp add: morph_particle_def)

lemma nth_morph_particle:
  "k < length ps \<Longrightarrow> morph_particle tp s i ps ! k =
     (if i * 3 \<le> k \<and> k < i * 3 + 3 then store_f32 (lerp_num tp s ps k) else ps ! k)"
  by (auto simp add: morph_particle_def nth_morph_axis lerp_num_morph_axis)

lemma lerp_num_morph_particle:
  assumes "\<not> (i * 3 \<le> k \<and> k < i * 3 + 3)"
  shows "lerp_num tp s (morph_particle tp s i ps) k = lerp_num tp s ps k"
proof -
  have "k \<noteq> i * 3" and "k \<noteq> i * 3 + 1" and "k \<noteq> i * 3 + 2"
    using assms by arith+
  then show ?thesis
    by (simp add: morph_particle_def lerp_num_morph_axis)
qed

text \<open>After \<open>n\<close> particles the loop has moved the first \<open>3n\<close> numbers and no other.\<close>

lemma fold_morph_particle:
  "length (fold (morph_particle tp s) [0..<n] ps) = length ps \<and>
   (\<forall>k < length ps. fold (morph_particle tp s) [0..<n] ps ! k =
      (if k < n * 3 then store_f32 (lerp_num tp s ps k) else ps ! k)) \<and>
   (\<forall>k. n * 3 \<le> k \<longrightarrow>
      lerp_num tp s (fold (morph_particle tp s) [0..<n] ps) k = lerp_num tp s ps k)"
proof (induction n)
  case 0
  then show ?case by simp
next
  case (Suc n)
  then show ?case
    by (auto simp add: nth_morph_particle lerp_num_morph_particle)
qed

lemma length_morph [simp]: "length (morph count tp s ps) = length ps"
  by (simp add: morph_def fold_morph_particle)


lemma length_useFrame [simp]:
  "length (positions (useFrame count tp a m st)) = length (positions st)"
  by (simp add: useFrame_def)

lemma length_funpow_useFrame [simp]:
  "length (positions ((useFrame count tp a m ^^ n) st)) = length (positions st)"
  by (induction n) simp_all









section \<open>The gesture mapper\<close>

lemma onResults_hand:
  assumes "8 < length h"
  shows "onResults (Some (h # hs)) =
     Inr (Detected, max 0 (min 1 (distance2d (h ! 4) (h ! 8) /
            js_or (distance2d (h ! 0) (h ! 5)) 0.1 - 0.2)))"
  using assms by (simp add: onResults_def distance2d_def Let_def max_def min_def)

lemma distance2d_same_y: "y p = y q \<Longrightarrow> distance2d p q = \<bar>x p - x q\<bar>"
  by (simp add: distance2d_def)

text \<open>
  C6 (as amended). For a detected hand the factor is the distance from thumb tip to
  index tip divided by the palm distance (wrist to index base), less 0.2, clamped to
  \<open>[0, 1]\<close>; the divisor is 0.1 only when the palm distance is 0, and is the palm
  distance itself whenever that is positive, also below 0.1.
\<close>

theorem gesture_factor:
  assumes "8 < length h"
  shows "onResults (Some (h # hs)) =
           Inr (Detected, max 0 (min 1 (distance2d (h ! 4) (h ! 8) /
                  (if distance2d (h ! 0) (h ! 5) = 0 then 0.1 else distance2d (h ! 0) (h ! 5))
                  - 0.2))) \<and>
         (0 < distance2d (h ! 0) (h ! 5) \<longrightarrow>
            onResults (Some (h # hs)) =
              Inr (Detected, max 0 (min 1 (distance2d (h ! 4) (h ! 8) /
                     distance2d (h ! 0) (h ! 5) - 0.2))))"
  unfolding onResults_hand [OF assms] by (simp add: js_or_def)

text \<open>C6, witness: palm distance 0.2, pinch distance 0.12, factor 0.4.\<close>

theorem gesture_factor_witness:
  "onResults (Some [hand4 \<lparr>x = 0, y = 0, z = 0\<rparr> \<lparr>x = 0.12, y = 0, z = 0\<rparr>
       \<lparr>x = 0.2, y = 0, z = 0\<rparr> \<lparr>x = 0, y = 0, z = 0\<rparr>]) = Inr (Detected, 0.4)"
  using gesture_factor [of "hand4 \<lparr>x = 0, y = 0, z = 0\<rparr> \<lparr>x = 0.12, y = 0, z = 0\<rparr>
       \<lparr>x = 0.2, y = 0, z = 0\<rparr> \<lparr>x = 0, y = 0, z = 0\<rparr>" "[]"]
  by (simp add: hand4_def distance2d_same_y)

text \<open>
  C6, counterexample to the claim as stated (a floor of 0.1 on the palm distance): with
  the palm distance 0.05 and the pinch distance 0.02 the factor is 0.2, the pinch
  distance divided by 0.05; divided by 0.1 it would be 0.
\<close>

theorem small_palm_counterexample:
  "distance2d \<lparr>x = 0, y = 0, z = 0\<rparr> \<lparr>x = 0.05, y = 0, z = 0\<rparr> = 0.05 \<and>
   onResults (Some [hand4 \<lparr>x = 0, y = 0, z = 0\<rparr> \<lparr>x = 0.02, y = 0, z = 0\<rparr>
       \<lparr>x = 0.05, y = 0, z = 0\<rparr> \<lparr>x = 0, y = 0, z = 0\<rparr>]) = Inr (Detected, 0.2) \<and>
   max 0 (min 1 (distance2d \<lparr>x = 0.02, y = 0, z = 0\<rparr> \<lparr>x = 0, y = 0, z = 0\<rparr> / 0.1 - 0.2))
     = (0::real)"
  by (simp add: onResults_hand hand4_def distance2d_same_y js_or_def)

text \<open>
  C7. Whatever \<open>onResults\<close> passes on lies in \<open>[0, 1]\<close>; with no hand (the list absent or
  empty) it is exactly 1; with a hand whose thumb tip and index tip are at distance 0 it
  is exactly 0, whatever the palm distance.
\<close>

theorem gesture_range:
  "(onResults r = Inr (st, f) \<longrightarrow> 0 \<le> f \<and> f \<le> 1) \<and>
   onResults None = Inr (Waiting, 1) \<and> onResults (Some []) = Inr (Waiting, 1) \<and>
   (8 < length h \<and> distance2d (h ! 4) (h ! 8) = 0 \<longrightarrow>
      onResults (Some (h # hs)) = Inr (Detected, 0))"
proof -
  have a: "onResults r = Inr (st, f) \<longrightarrow> 0 \<le> f \<and> f \<le> 1"
    by (auto simp add: onResults_def Let_def split: option.splits list.splits if_splits)
  have b: "onResults None = Inr (Waiting, 1)" "onResults (Some []) = Inr (Waiting, 1)"
    by (simp_all add: onResults_def)
  have c: "8 < length h \<and> distance2d (h ! 4) (h ! 8) = 0 \<longrightarrow>
      onResults (Some (h # hs)) = Inr (Detected, 0)"
    by (simp add: onResults_hand)
  from a b c show ?thesis by blast
qed

text \<open>C7, witness: a hand whose thumb tip and index tip coincide.\<close>

theorem gesture_range_witness:
  "onResults (Some [hand4 \<lparr>x = 0, y = 0, z = 0\<rparr> \<lparr>x = 0.3, y = 0.1, z = 0\<rparr>
       \<lparr>x = 0.2, y = 0, z = 0\<rparr> \<lparr>x = 0.3, y = 0.1, z = 0\<rparr>]) = Inr (Detected, 0) \<and>
   (0::real) \<le> 0 \<and> (0::real) \<le> 1"
  using gesture_range [where h = "hand4 \<lparr>x = 0, y = 0, z = 0\<rparr> \<lparr>x = 0.3, y = 0.1, z = 0\<rparr>
       \<lparr>x = 0.2, y = 0, z = 0\<rparr> \<lparr>x = 0.3, y = 0.1, z = 0\<rparr>" and hs = "[]"
       and r = "Some [hand4 \<lparr>x = 0, y = 0, z = 0\<rparr> \<lparr>x = 0.3, y = 0.1, z = 0\<rparr>
       \<lparr>x = 0.2, y = 0, z = 0\<rparr> \<lparr>x = 0.3, y = 0.1, z = 0\<rparr>]" and st = Detected and f = 0]
  by (simp add: hand4_def distance2d_def)

section \<open>The generator: draws, vectors and the loop\<close>

lemma fst_random [simp]: "fst (random g) = g 0"
  by (simp add: random_def)

lemma unit_draws_random:
  "unit_draws g \<Longrightarrow> 0 \<le> fst (random g) \<and> fst (random g) < 1 \<and> unit_draws (snd (random g))"
  by (simp add: unit_draws_def random_def)

lemma random_const [simp]: "random (\<lambda>n. c) = (c, \<lambda>n. c)"
  by (simp add: random_def)


lemma applyAxisAngle_X:
  "applyAxisAngle (set_vec 1 0 0) a v =
     \<lparr>x = x v, y = y v * cos a - z v * sin a, z = y v * sin a + z v * cos a\<rparr>"
  by (simp add: applyAxisAngle_def set_vec_def add_vec_def multiplyScalar_def cross_def dot_def
      algebra_simps)

lemma lengthSq_applyAxisAngle_X [simp]:
  "lengthSq (applyAxisAngle (set_vec 1 0 0) a v) = lengthSq v"
proof -
  have "(sin a)\<^sup>2 + (cos a)\<^sup>2 = 1"
    by simp
  then show ?thesis
    unfolding lengthSq_def applyAxisAngle_X by (simp only: Vector3.simps) algebra
qed

lemma applyAxisAngle_X_inverse [simp]:
  "applyAxisAngle (set_vec 1 0 0) (- a) (applyAxisAngle (set_vec 1 0 0) a v) = (v :: real Vector3)"
proof -
  have e: "(sin a)\<^sup>2 + (cos a)\<^sup>2 = 1"
    by simp
  have 1: "(y v * cos a - z v * sin a) * cos a + (y v * sin a + z v * cos a) * sin a = y v"
    using e by algebra
  have 2: "(y v * sin a + z v * cos a) * cos a - (y v * cos a - z v * sin a) * sin a = z v"
    using e by algebra
  show ?thesis
    unfolding applyAxisAngle_X by (simp add: 1 2)
qed



lemma Vector3_eta [simp]: "\<lparr>x = x v, y = y v, z = z v\<rparr> = (v :: 'n Vector3)"
  by (cases v) simp




text \<open>
  C9. For the Heart shape the array returned and the generator state left do not depend
  on \<open>radius\<close>: with the same draws, two radii give the same result.
\<close>

theorem heart_ignores_radius:
  "generateShapePositions HEART count r1 g = generateShapePositions HEART count r2 g"
proof -
  have "particle HEART count r1 = particle HEART count r2"
    by (rule ext)+ (simp add: particle_def split_beta)
  then have "store_particle HEART count r1 = store_particle HEART count r2"
    by (simp add: store_particle_def fun_eq_iff)
  then show ?thesis
    by (simp add: generateShapePositions_def)
qed

section \<open>The shapes\<close>



lemma snd_random [simp]: "snd (random g) = (\<lambda>n. g (Suc n))"
  by (simp add: random_def)










































lemma sqrt_unit: "0 \<le> u \<Longrightarrow> u < 1 \<Longrightarrow> 0 \<le> sqrt u \<and> sqrt u \<le> 1"
  by simp




section \<open>The bound for every shape\<close>







section \<open>Saturn\<close>









end
